theory Spec2Isabelle
  imports Complex_Main "HOL-Library.Multiset" "HOL-Library.AList" "HOL-Library.Log_Nat"
begin

section \<open>The Task document\<close>

text \<open>
  The Task model (\<^verbatim>\<open>taskSchema\<close>) keeps, for every task, a roster \<^verbatim>\<open>assignedTo\<close>, a
  status, a progress sub-document and one time-tracking ledger entry per user.
  Dates are instants in milliseconds (what \<^verbatim>\<open>Date\<close> subtraction and comparison use),
  so they are integers; a percentage and an estimate in hours are rationals; user ids
  are natural numbers compared by equality, as the source compares their
  \<^verbatim>\<open>toString()\<close>.
  Only the fields that the operations below read or write are kept.
\<close>

type_synonym user_id = nat

type_synonym date = int

datatype task_status = PENDING | IN_PROGRESS | COMPLETED | CANCELLED | OVERDUE

datatype phase = planning | development | testing | review | deployment | completed

datatype assignee_role = primary | collaborator | reviewer

record assignee =
  user :: user_id
  assignedAt :: date
  role :: assignee_role

record session =
  startTime :: "date option"
  endTime :: date
  duration :: int
  session_notes :: string

record time_tracking =
  tt_user :: user_id
  totalTimeSpent :: int
  sessions :: "session list"
  isActive :: bool
  currentSessionStart :: "date option"
  lastActivity :: "date option"

record progress =
  currentPhase :: phase
  percentage :: rat

record status_change =
  changed_status :: task_status
  changedBy :: user_id
  changedAt :: date
  reason :: string

text \<open>
  \<^verbatim>\<open>modifiedBy\<close> is a property the methods put on the document object; it is absent on
  a freshly loaded one. \<^verbatim>\<open>isNew\<close> and \<^verbatim>\<open>savedStatus\<close> stand for the document's
  change tracking: \<^verbatim>\<open>isModified('status')\<close> holds when the status differs from the one
  that was last persisted.
\<close>

record task =
  assignedTo :: "assignee list"
  assignedBy :: user_id
  status :: task_status
  progress :: progress
  dueDate :: "date option"
  startDate :: "date option"
  completedDate :: "date option"
  estimatedHours :: "rat option"
  timeTracking :: "time_tracking list"
  statusHistory :: "status_change list"
  createdAt :: date
  modifiedBy :: "user_id option"
  isNew :: bool
  savedStatus :: task_status

datatype error =
    NotAssignedError
  | AlreadyActiveError
  | NoEntryError
  | NoActiveSessionError
  | LastAssigneeError

fun message :: "error \<Rightarrow> string" where
  "message NotAssignedError = ''User is not assigned to this task''"
| "message AlreadyActiveError = ''Time tracking is already active for this user on this task''"
| "message NoEntryError = ''No time tracking entry found for this user''"
| "message NoActiveSessionError = ''No active time tracking session for this user on this task''"
| "message LastAssigneeError = ''Cannot remove the last assignee from task''"

subsection \<open>Saving: the two pre-save hooks\<close>

text \<open>
  First hook. On a status change of a document that is not new, a history entry is
  pushed, \<^verbatim>\<open>completedDate\<close> is set when the status is completed, and \<^verbatim>\<open>startDate\<close>
  when the task goes in progress for the first time. The hook also reads
  \<^verbatim>\<open>this.timeTracking.isActive\<close>; \<^verbatim>\<open>timeTracking\<close> is the array of ledger entries, which
  has no such property, so the read is \<^verbatim>\<open>undefined\<close> and the guarded call is never made:
  the ledger is left as it is. \<^verbatim>\<open>statusChangeReason\<close> is assigned nowhere, so the reason
  is always the default.
\<close>

definition pre_save_status_history :: "date \<Rightarrow> task \<Rightarrow> task" where
  "pre_save_status_history now t =
     (if status t \<noteq> savedStatus t \<and> \<not> isNew t then
        let t1 = t\<lparr>statusHistory := statusHistory t @
                   [\<lparr>changed_status = status t,
                     changedBy = (case modifiedBy t of Some u \<Rightarrow> u | None \<Rightarrow> assignedBy t),
                     changedAt = now,
                     reason = ''Status updated''\<rparr>]\<rparr>;
            t2 = (if status t1 = COMPLETED then t1\<lparr>completedDate := Some now\<rparr> else t1);
            t3 = (if status t2 = IN_PROGRESS \<and> startDate t2 = None
                  then t2\<lparr>startDate := Some now\<rparr> else t2)
        in t3
      else t)"

text \<open>Second hook: the overdue rule.\<close>

definition pre_save_overdue :: "date \<Rightarrow> task \<Rightarrow> task" where
  "pre_save_overdue now t =
     (if (case dueDate t of None \<Rightarrow> False | Some d \<Rightarrow> d < now) \<and>
         status t \<noteq> COMPLETED \<and> status t \<noteq> CANCELLED \<and> status t \<noteq> OVERDUE
      then t\<lparr>status := OVERDUE\<rparr> else t)"

text \<open>
  \<^verbatim>\<open>save()\<close> runs the hooks in the order of their registration and persists the
  document, after which nothing counts as modified. Schema validation and the
  store itself are outside the model.
\<close>

definition save :: "date \<Rightarrow> task \<Rightarrow> task" where
  "save now t =
     (let t' = pre_save_overdue now (pre_save_status_history now t)
      in t'\<lparr>isNew := False, savedStatus := status t'\<rparr>)"

subsection \<open>The time-tracking ledger\<close>

text \<open>
  \<^verbatim>\<open>Array.prototype.find\<close> returns a reference to the first matching entry, and the
  methods then assign to its fields: \<open>update_first\<close> is that in-place update.
\<close>

fun update_first :: "('a \<Rightarrow> bool) \<Rightarrow> ('a \<Rightarrow> 'a) \<Rightarrow> 'a list \<Rightarrow> 'a list" where
  "update_first P f [] = []"
| "update_first P f (x # xs) = (if P x then f x # xs else x # update_first P f xs)"

definition new_entry :: "date \<Rightarrow> user_id \<Rightarrow> time_tracking" where
  "new_entry now userId =
     \<lparr>tt_user = userId, totalTimeSpent = 0, sessions = [], isActive = False,
      currentSessionStart = None, lastActivity = Some now\<rparr>"

text \<open>
  A method returns the document as the call leaves it, together with the error when it
  throws. Each call reads the clock as one instant \<open>now\<close>.

  \<^verbatim>\<open>timeTracking\<close> is a document array: \<^verbatim>\<open>push\<close> casts the plain object it is given to a
  new sub-document and stores that. So for a user without an entry
  \<^verbatim>\<open>startTimeTracking\<close> stores a fresh inactive entry, and the three assignments that
  follow reach the plain object \<^verbatim>\<open>userTimeTracking\<close>, not the stored entry: the first
  start of a user leaves the entry inactive. An entry that \<^verbatim>\<open>find\<close> returns is the stored
  one and is activated in place.
\<close>

definition startTimeTracking :: "date \<Rightarrow> user_id \<Rightarrow> task \<Rightarrow> error option \<times> task" where
  "startTimeTracking now userId t =
     (if \<not> list_ex (\<lambda>a. user a = userId) (assignedTo t) then (Some NotAssignedError, t)
      else
        let found = find (\<lambda>tt. tt_user tt = userId) (timeTracking t);
            userTimeTracking = (case found of None \<Rightarrow> new_entry now userId | Some e \<Rightarrow> e);
            t1 = (case found of
                    None \<Rightarrow> t\<lparr>timeTracking := timeTracking t @ [new_entry now userId]\<rparr>
                  | Some e \<Rightarrow> t)
        in if isActive userTimeTracking then (Some AlreadyActiveError, t1)
           else
             let t2 = (case found of
                         None \<Rightarrow> t1
                       | Some e \<Rightarrow>
                           t1\<lparr>timeTracking :=
                                update_first (\<lambda>tt. tt_user tt = userId)
                                  (\<lambda>e. e\<lparr>isActive := True, currentSessionStart := Some now,
                                         lastActivity := Some now\<rparr>) (timeTracking t1)\<rparr>);
                 t3 = (if status t2 = PENDING then t2\<lparr>status := IN_PROGRESS\<rparr> else t2)
             in (None, save now t3))"

text \<open>
  \<^verbatim>\<open>endTime - startTime\<close> is a subtraction of Dates; a \<^verbatim>\<open>null\<close> start converts to 0.
\<close>

definition close_session :: "date \<Rightarrow> string \<Rightarrow> time_tracking \<Rightarrow> time_tracking" where
  "close_session now nts e =
     (let st = currentSessionStart e;
          d = now - (case st of None \<Rightarrow> 0 | Some s \<Rightarrow> s)
      in e\<lparr>sessions := sessions e @ [\<lparr>startTime = st, endTime = now, duration = d, session_notes = nts\<rparr>],
           totalTimeSpent := totalTimeSpent e + d,
           lastActivity := Some now,
           isActive := False,
           currentSessionStart := None\<rparr>)"

definition stopTimeTracking :: "date \<Rightarrow> user_id \<Rightarrow> string \<Rightarrow> task \<Rightarrow> error option \<times> task" where
  "stopTimeTracking now userId nts t =
     (case find (\<lambda>tt. tt_user tt = userId) (timeTracking t) of
        None \<Rightarrow> (Some NoEntryError, t)
      | Some userTimeTracking \<Rightarrow>
          if \<not> isActive userTimeTracking then (Some NoActiveSessionError, t)
          else (None, save now (t\<lparr>timeTracking :=
                  update_first (\<lambda>tt. tt_user tt = userId) (close_session now nts)
                    (timeTracking t)\<rparr>)))"

subsection \<open>Sequences of calls and the ledger invariant\<close>

text \<open>
  A controller loads the task, calls one method and answers; the next request works on
  what the previous one left. \<open>calls\<close> runs such a sequence, failed calls included.
\<close>

datatype tracking_call = Start date user_id | Stop date user_id string

fun call :: "tracking_call \<Rightarrow> task \<Rightarrow> error option \<times> task" where
  "call (Start now userId) t = startTimeTracking now userId t"
| "call (Stop now userId nts) t = stopTimeTracking now userId nts t"

fun calls :: "tracking_call list \<Rightarrow> task \<Rightarrow> task" where
  "calls [] t = t"
| "calls (c # cs) t = calls cs (snd (call c t))"

text \<open>The ledger invariant: the accumulator is the sum of the recorded sessions.\<close>

definition entry_balanced :: "time_tracking \<Rightarrow> bool" where
  "entry_balanced e = (totalTimeSpent e = sum_list (map duration (sessions e)))"

definition ledger_balanced :: "task \<Rightarrow> bool" where
  "ledger_balanced t = list_all entry_balanced (timeTracking t)"

text \<open>Saving again and again, at the given instants.\<close>

fun saves :: "date list \<Rightarrow> task \<Rightarrow> task" where
  "saves [] t = t"
| "saves (now # ns) t = saves ns (save now t)"

subsection \<open>Completing a task and changing the roster\<close>

text \<open>
  The loop of \<^verbatim>\<open>markAsCompleted\<close> walks the ledger array by index; at each entry that is
  active it awaits \<^verbatim>\<open>stopTimeTracking(tt.user, 'Task completed')\<close>, which looks the user's
  first entry up again. A throw there leaves the method with the document as it is.
\<close>

function stop_active_from :: "date \<Rightarrow> nat \<Rightarrow> task \<Rightarrow> error option \<times> task" where
  "stop_active_from now i t =
     (if i < length (timeTracking t) then
        let tt = timeTracking t ! i in
        if isActive tt then
          (case stopTimeTracking now (tt_user tt) ''Task completed'' t of
             (Some err, t') \<Rightarrow> (Some err, t')
           | (None, t') \<Rightarrow> stop_active_from now (i + 1) t')
        else stop_active_from now (i + 1) t
      else (None, t))"
  by pat_completeness auto

termination
proof (relation "measure (\<lambda>(now, i, t). length (timeTracking t) - i)", goal_cases)
  case 1
  then show ?case by simp
next
  case (2 now i t tt x1 x2)
  have upd: "length (update_first P f xs) = length xs"
    for P f and xs :: "time_tracking list"
    by (induction xs) auto
  have "length (timeTracking (snd (stopTimeTracking now (tt_user tt) ''Task completed'' t))) =
      length (timeTracking t)"
    by (simp add: stopTimeTracking_def save_def pre_save_overdue_def
          pre_save_status_history_def Let_def upd split: option.splits)
  with 2 show ?case
    by (simp add: snd_def split: prod.splits)
next
  case (3 now i t tt)
  then show ?case by simp
qed

declare stop_active_from.simps [simp del]

definition markAsCompleted :: "date \<Rightarrow> user_id \<Rightarrow> task \<Rightarrow> error option \<times> task" where
  "markAsCompleted now userId t =
     (let t1 = t\<lparr>status := COMPLETED, completedDate := Some now, modifiedBy := Some userId,
                 progress := (progress t)\<lparr>currentPhase := completed, percentage := 100\<rparr>\<rparr>
      in case stop_active_from now 0 t1 of
           (Some err, t') \<Rightarrow> (Some err, t')
         | (None, t2) \<Rightarrow> (None, save now t2))"

text \<open>
  \<^verbatim>\<open>removeAssignee\<close> refuses to empty the roster, stops the user's open session, then
  filters the user out of the roster and out of the ledger and saves.
\<close>

definition removeAssignee :: "date \<Rightarrow> user_id \<Rightarrow> task \<Rightarrow> error option \<times> task" where
  "removeAssignee now userId t =
     (if length (assignedTo t) \<le> 1 then (Some LastAssigneeError, t)
      else
        case (case find (\<lambda>tt. tt_user tt = userId) (timeTracking t) of
                None \<Rightarrow> (None, t)
              | Some userTimeTracking \<Rightarrow>
                  if isActive userTimeTracking
                  then stopTimeTracking now userId ''Removed from task'' t
                  else (None, t)) of
          (Some err, t') \<Rightarrow> (Some err, t')
        | (None, t1) \<Rightarrow>
            (None, save now (t1\<lparr>assignedTo := filter (\<lambda>a. user a \<noteq> userId) (assignedTo t1),
                                 timeTracking := filter (\<lambda>tt. tt_user tt \<noteq> userId) (timeTracking t1)\<rparr>)))"

text \<open>What the completion loop does to one entry.\<close>

definition close_if_active :: "date \<Rightarrow> string \<Rightarrow> time_tracking \<Rightarrow> time_tracking" where
  "close_if_active now nts e = (if isActive e then close_session now nts e else e)"

text \<open>
  The controller's \<^verbatim>\<open>updateTask\<close> writes the request's fields with
  \<^verbatim>\<open>Task.findByIdAndUpdate\<close>: the store is updated directly and no save hook runs.
  For a request that carries a status, that is:
\<close>

definition findByIdAndUpdate_status :: "task_status \<Rightarrow> task \<Rightarrow> task" where
  "findByIdAndUpdate_status s t = t\<lparr>status := s, savedStatus := s\<rparr>"

section \<open>The scoring engine\<close>

text \<open>
  \<^verbatim>\<open>Math.round\<close> rounds to the nearest integer, a half going up.
\<close>

definition js_round :: "rat \<Rightarrow> int" where
  "js_round x = \<lfloor>x + 1 / 2\<rfloor>"

text \<open>
  One record per employee, as \<^verbatim>\<open>calculateEmployeeOfTheMonth\<close> builds it. The last three
  fields are added by the final pass and absent before it.
\<close>

record employee_score =
  score_user :: user_id
  totalScore :: int
  tasksCompleted :: int
  tasksInProgress :: int
  score_totalTimeSpent :: int
  onTimeCompletions :: int
  overdueCompletions :: int
  averageProgress :: rat
  progressCount :: int
  completionRate :: "int option"
  onTimeRate :: "int option"
  totalHoursWorked :: "rat option"

definition initial_score :: "user_id \<Rightarrow> employee_score" where
  "initial_score userId =
     \<lparr>score_user = userId, totalScore = 0, tasksCompleted = 0, tasksInProgress = 0,
      score_totalTimeSpent = 0, onTimeCompletions = 0, overdueCompletions = 0,
      averageProgress = 0, progressCount = 0,
      completionRate = None, onTimeRate = None, totalHoursWorked = None\<rparr>"

text \<open>
  The body of the inner loop, for one task and one of its assignees, on that
  employee's record. A Date is always truthy, so the guards on \<^verbatim>\<open>completedDate\<close> and
  \<^verbatim>\<open>dueDate\<close> test for \<^verbatim>\<open>null\<close>; \<^verbatim>\<open>task.estimatedHours &&\<close> fails for \<^verbatim>\<open>null\<close> and for 0.
\<close>

definition score_task_assignee :: "task \<Rightarrow> user_id \<Rightarrow> employee_score \<Rightarrow> employee_score" where
  "score_task_assignee task userId score =
     (let userTimeTracking = find (\<lambda>tt. tt_user tt = userId) (timeTracking task);
          s1 = (case userTimeTracking of
                  None \<Rightarrow> score
                | Some tt \<Rightarrow>
                    score\<lparr>score_totalTimeSpent := score_totalTimeSpent score + totalTimeSpent tt\<rparr>);
          s2 = (if status task = COMPLETED then
                  let a = s1\<lparr>tasksCompleted := tasksCompleted s1 + 1,
                             totalScore := totalScore s1 + 50\<rparr>;
                      b = (if (case (completedDate task, dueDate task) of
                                 (Some c, Some d) \<Rightarrow> c \<le> d | _ \<Rightarrow> False)
                           then a\<lparr>onTimeCompletions := onTimeCompletions a + 1,
                                   totalScore := totalScore a + 30\<rparr>
                           else a\<lparr>overdueCompletions := overdueCompletions a + 1,
                                   totalScore := totalScore a + 10\<rparr>)
                  in (case (estimatedHours task, userTimeTracking) of
                        (Some est, Some tt) \<Rightarrow>
                          if est \<noteq> 0 \<and> of_int (totalTimeSpent tt) / (1000 * 60 * 60) < est
                          then b\<lparr>totalScore := totalScore b + 20\<rparr> else b
                      | _ \<Rightarrow> b)
                else if status task = IN_PROGRESS then
                  s1\<lparr>tasksInProgress := tasksInProgress s1 + 1,
                     totalScore := totalScore s1 + 10\<rparr>
                else s1)
      in if 0 < percentage (progress task) then
           s2\<lparr>averageProgress := averageProgress s2 + percentage (progress task),
              progressCount := progressCount s2 + 1,
              totalScore := totalScore s2 + js_round (percentage (progress task) / 10)\<rparr>
         else s2)"

text \<open>
  \<^verbatim>\<open>employeeScores\<close> is an object keyed by the user id; its values are enumerated in
  the order in which the keys were first written. An association list updated in
  place, a new key going to the end, is that object.
\<close>

definition score_assignee ::
  "task \<Rightarrow> (user_id \<times> employee_score) list \<Rightarrow> assignee \<Rightarrow> (user_id \<times> employee_score) list" where
  "score_assignee task employeeScores a =
     (let userId = user a;
          score = (case map_of employeeScores userId of
                     None \<Rightarrow> initial_score userId | Some s \<Rightarrow> s)
      in AList.update userId (score_task_assignee task userId score) employeeScores)"

definition accumulate_scores :: "task list \<Rightarrow> (user_id \<times> employee_score) list" where
  "accumulate_scores tasks =
     foldl (\<lambda>employeeScores task. foldl (score_assignee task) employeeScores (assignedTo task))
       [] tasks"

text \<open>The final pass over one record.\<close>

definition finalize_score :: "employee_score \<Rightarrow> employee_score" where
  "finalize_score score =
     (let totalTasks = tasksCompleted score + tasksInProgress score
      in score\<lparr>averageProgress :=
                 (if 0 < progressCount score
                  then of_int (js_round (averageProgress score / of_int (progressCount score)))
                  else 0),
               completionRate :=
                 Some (if 0 < totalTasks
                       then js_round (of_int (tasksCompleted score) / of_int totalTasks * 100)
                       else 0),
               onTimeRate :=
                 Some (if 0 < tasksCompleted score
                       then js_round (of_int (onTimeCompletions score) /
                                      of_int (tasksCompleted score) * 100)
                       else 0),
               totalHoursWorked :=
                 Some (of_int (js_round (of_int (score_totalTimeSpent score) /
                                         (1000 * 60 * 60) * 10)) / 10)\<rparr>)"

text \<open>The query: tasks created in the window whose status is completed or in progress.\<close>

definition find_tasks :: "date \<Rightarrow> date \<Rightarrow> task list \<Rightarrow> task list" where
  "find_tasks windowStart windowEnd db =
     filter (\<lambda>t. windowStart \<le> createdAt t \<and> createdAt t \<le> windowEnd \<and>
                 (status t = COMPLETED \<or> status t = IN_PROGRESS)) db"

record ranking_result =
  employeeOfTheMonth :: "employee_score option"
  topPerformers :: "employee_score list"
  allRankings :: "employee_score list"
  periodStart :: date
  periodEnd :: date

text \<open>
  \<^verbatim>\<open>Array.prototype.sort\<close> is stable and the comparator orders by \<^verbatim>\<open>totalScore\<close>,
  larger first: a stable insertion sort on the negated score.
\<close>

definition calculateEmployeeOfTheMonth :: "date \<Rightarrow> date \<Rightarrow> task list \<Rightarrow> ranking_result" where
  "calculateEmployeeOfTheMonth windowStart windowEnd db =
     (let tasks = find_tasks windowStart windowEnd db;
          employeeScores = accumulate_scores tasks;
          rankings = sort_key (\<lambda>s. - totalScore s)
                       (filter (\<lambda>s. 0 < tasksCompleted s)
                          (map finalize_score (map snd employeeScores)))
      in \<lparr>employeeOfTheMonth = (case rankings of [] \<Rightarrow> None | r # _ \<Rightarrow> Some r),
          topPerformers = take 5 rankings,
          allRankings = rankings,
          periodStart = windowStart,
          periodEnd = windowEnd\<rparr>)"

text \<open>
  What one task gives to one of its assignees, and the score an employee has in the
  accumulated object (0 for an employee the loop never met).
\<close>

definition points :: "task \<Rightarrow> user_id \<Rightarrow> int" where
  "points t u = totalScore (score_task_assignee t u (initial_score u))"

definition score_of :: "(user_id \<times> employee_score) list \<Rightarrow> user_id \<Rightarrow> int" where
  "score_of employeeScores u =
     (case map_of employeeScores u of None \<Rightarrow> 0 | Some s \<Rightarrow> totalScore s)"

text \<open>An object with one record per user id, each filed under its own id.\<close>

definition keyed :: "(user_id \<times> employee_score) list \<Rightarrow> bool" where
  "keyed sc = (distinct (map fst sc) \<and> list_all (\<lambda>(k, s). score_user s = k) sc)"

section \<open>The Performance record\<close>

text \<open>
  A Performance document is a snapshot of counters for one employee and one period,
  with the derived \<^verbatim>\<open>overallScore\<close> and \<^verbatim>\<open>grade\<close>. The counters are counts, hence
  integers; the rates and the weighted score are doubles.
\<close>

datatype period = weekly | monthly | quarterly | yearly

record performance =
  employee :: user_id
  period :: period
  perf_startDate :: date
  perf_endDate :: date
  perf_tasksCompleted :: int
  tasksAssigned :: int
  tasksOverdue :: int
  attendanceDays :: int
  totalWorkingDays :: int
  salesCalls :: int
  salesConversions :: int
  overallScore :: int
  grade :: string
  perf_isActive :: bool

text \<open>
  The rates and the weighted score are computed in JavaScript Numbers, which are IEEE 754
  doubles. A finite double is a rational number, and each of \<^verbatim>\<open>+\<close>, \<^verbatim>\<open>-\<close>, \<^verbatim>\<open>*\<close> and
  \<^verbatim>\<open>/\<close> returns the double nearest to the exact result, a tie going to the even
  significand. \<open>to_double\<close> is that rounding, to a significand of 53 bits:
  \<open>binary_exponent a\<close> is the \<open>e\<close> with \<open>2 ^ e \<le> a < 2 ^ (e + 1)\<close>, and the result is a
  multiple of \<open>2 ^ (e - 52)\<close>. The exponent is not bounded here; doubles agree as long
  as no result leaves their range, which counters that are counts never make it do.
  Such counters are integers below \<open>2 ^ 53\<close> in magnitude, and doubles hold them
  exactly. A decimal literal of the source is the double nearest to it.
\<close>

definition round_half_even :: "rat \<Rightarrow> int" where
  "round_half_even m =
     (let f = \<lfloor>m\<rfloor>; r = m - of_int f
      in if r < 1 / 2 then f else if 1 / 2 < r then f + 1 else if even f then f else f + 1)"

definition binary_exponent :: "rat \<Rightarrow> int" where
  "binary_exponent a =
     (let (p, q) = quotient_of a; d = bitlen p - bitlen q
      in if 2 powi d \<le> a then d else d - 1)"

definition to_double :: "rat \<Rightarrow> rat" where
  "to_double x =
     (if x = 0 then 0
      else let a = \<bar>x\<bar>; ulp = 2 powi (binary_exponent a - 52)
           in sgn x * of_int (round_half_even (a / ulp)) * ulp)"

definition double_add :: "rat \<Rightarrow> rat \<Rightarrow> rat" where
  "double_add x y = to_double (x + y)"

definition double_sub :: "rat \<Rightarrow> rat \<Rightarrow> rat" where
  "double_sub x y = to_double (x - y)"

definition double_mul :: "rat \<Rightarrow> rat \<Rightarrow> rat" where
  "double_mul x y = to_double (x * y)"

definition double_div :: "rat \<Rightarrow> rat \<Rightarrow> rat" where
  "double_div x y = to_double (x / y)"

text \<open>
  \<open>close_to d x' x\<close>: the computed \<open>x'\<close> is within \<open>d\<close> of the exact \<open>x\<close>. It is used to
  bound how far the doubles of the score drift from the exact formula.
\<close>

definition close_to :: "rat \<Rightarrow> rat \<Rightarrow> rat \<Rightarrow> bool" where
  "close_to d x' x = (\<bar>x' - x\<bar> \<le> d)"

text \<open>The virtuals.\<close>

definition taskCompletionRate :: "performance \<Rightarrow> rat" where
  "taskCompletionRate p =
     (if 0 < tasksAssigned p
      then double_mul (double_div (of_int (perf_tasksCompleted p)) (of_int (tasksAssigned p))) 100
      else 0)"

definition attendanceRate :: "performance \<Rightarrow> rat" where
  "attendanceRate p =
     (if 0 < totalWorkingDays p
      then double_mul (double_div (of_int (attendanceDays p)) (of_int (totalWorkingDays p))) 100
      else 0)"

definition salesConversionRate :: "performance \<Rightarrow> rat" where
  "salesConversionRate p =
     (if 0 < salesCalls p
      then double_mul (double_div (of_int (salesConversions p)) (of_int (salesCalls p))) 100
      else 0)"

text \<open>
  \<^verbatim>\<open>calculateOverallScore\<close>, in two steps. \<open>weighted_score\<close> is the local \<^verbatim>\<open>score\<close>
  when the method reaches \<^verbatim>\<open>Math.round\<close>; the method also sums the weights it applied
  in \<^verbatim>\<open>weightSum\<close>, which it never reads. \<open>round_and_grade\<close> is the rest of the method:
  it stores the rounded score and the grade read off it. \<^verbatim>\<open>Math.round\<close> is exact on a
  double.
\<close>

definition weighted_score :: "performance \<Rightarrow> rat" where
  "weighted_score p =
     (let score = 0;
          taskScore = taskCompletionRate p;
          score = double_add score (double_mul taskScore (to_double 0.3));
          attendanceScore = attendanceRate p;
          score = double_add score (double_mul attendanceScore (to_double 0.25));
          onTimeRate = (if 0 < tasksAssigned p
                        then double_mul
                               (double_div
                                  (double_sub (of_int (tasksAssigned p)) (of_int (tasksOverdue p)))
                                  (of_int (tasksAssigned p)))
                               100
                        else 100);
          score = double_add score (double_mul onTimeRate (to_double 0.2))
      in if 0 < salesCalls p
         then let salesScore = salesConversionRate p
              in double_add score (double_mul salesScore (to_double 0.25))
         else score)"

definition round_and_grade :: "rat \<Rightarrow> performance \<Rightarrow> performance" where
  "round_and_grade score p =
     (let s = js_round score
      in p\<lparr>overallScore := s,
           grade := (if 95 \<le> s then ''A+''
                     else if 90 \<le> s then ''A''
                     else if 85 \<le> s then ''B+''
                     else if 80 \<le> s then ''B''
                     else if 75 \<le> s then ''C+''
                     else if 70 \<le> s then ''C''
                     else if 60 \<le> s then ''D''
                     else ''F'')\<rparr>)"

definition calculateOverallScore :: "performance \<Rightarrow> performance" where
  "calculateOverallScore p = round_and_grade (weighted_score p) p"

text \<open>The pre-save hook: a modified document is scored again before it is stored.\<close>

definition performance_pre_save :: "bool \<Rightarrow> performance \<Rightarrow> performance" where
  "performance_pre_save isModified p = (if isModified then calculateOverallScore p else p)"

subsection \<open>Employee of the month, from the Performance records\<close>

text \<open>
  \<^verbatim>\<open>Performance.calculateEmployeeOfTheMonth(month, year)\<close>. The calendar arithmetic of
  \<^verbatim>\<open>new Date(year, monthIndex, day)\<close> is a parameter \<open>mkDate\<close>. The query keeps the
  active monthly records whose window lies in the month, in the order in which the
  store returns them; \<^verbatim>\<open>reduce\<close> without an initial value starts from the first.
\<close>

definition find_performances :: "date \<Rightarrow> date \<Rightarrow> performance list \<Rightarrow> performance list" where
  "find_performances monthStart monthEnd db =
     filter (\<lambda>p. period p = monthly \<and> monthStart \<le> perf_startDate p \<and>
                 perf_endDate p \<le> monthEnd \<and> perf_isActive p) db"

definition Performance_calculateEmployeeOfTheMonth ::
  "(int \<Rightarrow> int \<Rightarrow> int \<Rightarrow> date) \<Rightarrow> int \<Rightarrow> int \<Rightarrow> performance list \<Rightarrow> performance option" where
  "Performance_calculateEmployeeOfTheMonth mkDate month year db =
     (let performances = find_performances (mkDate year (month - 1) 1) (mkDate year month 0) db
      in case performances of
           [] \<Rightarrow> None
         | first # others \<Rightarrow>
             Some (foldl (\<lambda>best current.
                            if overallScore best < overallScore current then current else best)
                     first others))"

text \<open>
  The controller behind \<^verbatim>\<open>POST /api/performance/employee-of-month\<close>. The store holds
  tasks and Performance records; \<^verbatim>\<open>!month\<close> holds for a missing value and for 0. The
  notification and the population of the employee do not change the answer.
\<close>

record store =
  tasks :: "task list"
  performances :: "performance list"

datatype response = BAD_REQUEST | NOT_FOUND | OK performance

definition PerformanceController_calculateEmployeeOfTheMonth ::
  "(int \<Rightarrow> int \<Rightarrow> int \<Rightarrow> date) \<Rightarrow> int option \<Rightarrow> int option \<Rightarrow> store \<Rightarrow> response" where
  "PerformanceController_calculateEmployeeOfTheMonth mkDate month year st =
     (case (month, year) of
        (Some m, Some y) \<Rightarrow>
          if m = 0 \<or> y = 0 then BAD_REQUEST
          else (case Performance_calculateEmployeeOfTheMonth mkDate m y (performances st) of
                  None \<Rightarrow> NOT_FOUND
                | Some winner \<Rightarrow> OK winner)
      | _ \<Rightarrow> BAD_REQUEST)"

section \<open>Example data\<close>

text \<open>A task used in the examples: two assignees, nothing tracked yet, due at 1000.\<close>

definition example_task :: task where
  "example_task =
     \<lparr>assignedTo = [\<lparr>user = 1, assignedAt = 0, role = primary\<rparr>,
                    \<lparr>user = 2, assignedAt = 0, role = collaborator\<rparr>],
      assignedBy = 9, status = PENDING,
      progress = \<lparr>currentPhase = planning, percentage = 0\<rparr>,
      dueDate = Some 1000, startDate = None, completedDate = None, estimatedHours = None,
      timeTracking = [], statusHistory = [], createdAt = 0, modifiedBy = None,
      isNew = False, savedStatus = PENDING\<rparr>"

definition example_calls :: "tracking_call list" where
  "example_calls =
     [Start 10 1, Start 20 1, Start 30 1, Stop 50 1 ''first'', Stop 60 1 ''again'',
      Start 70 3, Start 80 2, Start 90 1]"

text \<open>A task in progress: user 1 has been tracking since instant 10, progress is at 40.\<close>

definition running_task :: task where
  "running_task =
     \<lparr>assignedTo = [\<lparr>user = 1, assignedAt = 0, role = primary\<rparr>,
                    \<lparr>user = 2, assignedAt = 0, role = collaborator\<rparr>],
      assignedBy = 9, status = IN_PROGRESS,
      progress = \<lparr>currentPhase = development, percentage = 40\<rparr>,
      dueDate = Some 1000, startDate = Some 10, completedDate = None, estimatedHours = None,
      timeTracking =
        [\<lparr>tt_user = 1, totalTimeSpent = 0, sessions = [], isActive = True,
          currentSessionStart = Some 10, lastActivity = Some 10\<rparr>],
      statusHistory = [], createdAt = 0, modifiedBy = None,
      isNew = False, savedStatus = IN_PROGRESS\<rparr>"

text \<open>The same task with user 1 as its only assignee.\<close>

definition solo_task :: task where
  "solo_task = running_task\<lparr>assignedTo := [\<lparr>user = 1, assignedAt = 0, role = primary\<rparr>]\<rparr>"

text \<open>
  The scenario of the specification: one task of employee 7, completed on 2024-01-09,
  due on 2024-01-10, estimated at 5 hours, with 4 hours in the employee's ledger and
  no progress recorded.
\<close>

definition scenario_task :: task where
  "scenario_task =
     \<lparr>assignedTo = [\<lparr>user = 7, assignedAt = 1704067200000, role = primary\<rparr>],
      assignedBy = 9, status = COMPLETED,
      progress = \<lparr>currentPhase = planning, percentage = 0\<rparr>,
      dueDate = Some 1704844800000, startDate = Some 1704153600000,
      completedDate = Some 1704758400000, estimatedHours = Some 5,
      timeTracking =
        [\<lparr>tt_user = 7, totalTimeSpent = 14400000, sessions =
            [\<lparr>startTime = Some 1704153600000, endTime = 1704168000000, duration = 14400000,
              session_notes = []\<rparr>],
          isActive = False, currentSessionStart = None, lastActivity = Some 1704168000000\<rparr>],
      statusHistory = [], createdAt = 1704067200000, modifiedBy = None,
      isNew = False, savedStatus = COMPLETED\<rparr>"


text \<open>
  A second task of the scenario's kind, completed a day late by employees 2 and 7 with
  full progress, and a small store: in it employee 1 has only a task in progress.
\<close>

definition late_task :: task where
  "late_task =
     scenario_task\<lparr>assignedTo := [\<lparr>user = 2, assignedAt = 1704067200000, role = primary\<rparr>,
                                  \<lparr>user = 7, assignedAt = 1704067200000, role = reviewer\<rparr>],
                   completedDate := Some 1704931200000,
                   progress := \<lparr>currentPhase = completed, percentage = 100\<rparr>\<rparr>"

definition example_db :: "task list" where
  "example_db = [running_task, late_task, scenario_task, example_task]"

text \<open>
  Records for the examples: one with every counter at 0, and one with every task
  completed on time and every day attended but no sales call.
\<close>

definition blank_performance :: performance where
  "blank_performance =
     \<lparr>employee = 7, period = monthly, perf_startDate = 1704067200000,
      perf_endDate = 1706659200000, perf_tasksCompleted = 0, tasksAssigned = 0,
      tasksOverdue = 0, attendanceDays = 0, totalWorkingDays = 0, salesCalls = 0,
      salesConversions = 0, overallScore = 0, grade = ''C'', perf_isActive = True\<rparr>"

definition perfect_without_sales :: performance where
  "perfect_without_sales =
     blank_performance\<lparr>perf_tasksCompleted := 8, tasksAssigned := 8,
                        attendanceDays := 22, totalWorkingDays := 22\<rparr>"

text \<open>Two records with sales: 19999 conversions in 25000 calls, and 19 in 25.\<close>

definition nearly_95 :: performance where
  "nearly_95 =
     perfect_without_sales\<lparr>salesCalls := 25000, salesConversions := 19999\<rparr>"

definition exactly_94 :: performance where
  "exactly_94 = perfect_without_sales\<lparr>salesCalls := 25, salesConversions := 19\<rparr>"

text \<open>
  A record on which the exact weighted sum is 59.5: two of three tasks completed, one
  overdue, 22 days of 25 attended, one conversion in six calls.
\<close>

definition rounding_record :: performance where
  "rounding_record =
     blank_performance\<lparr>perf_tasksCompleted := 2, tasksAssigned := 3, tasksOverdue := 1,
                        attendanceDays := 22, totalWorkingDays := 25,
                        salesCalls := 6, salesConversions := 1\<rparr>"

text \<open>
  For the example, the Date constructor on the two dates the call needs, the first of
  January 2024 and day 0 of the next month, and six records: the second is inactive,
  the fourth weekly, the last ends after the month.
\<close>

definition january_2024 :: "int \<Rightarrow> int \<Rightarrow> int \<Rightarrow> date" where
  "january_2024 y monthIndex day = (if monthIndex = 0 then 1704067200000 else 1706659200000)"

definition example_performances :: "performance list" where
  "example_performances =
     [blank_performance\<lparr>employee := 3, overallScore := 80\<rparr>,
      blank_performance\<lparr>employee := 4, overallScore := 99, perf_isActive := False\<rparr>,
      blank_performance\<lparr>employee := 5, overallScore := 90\<rparr>,
      blank_performance\<lparr>employee := 6, overallScore := 95, period := weekly\<rparr>,
      blank_performance\<lparr>employee := 7, overallScore := 90\<rparr>,
      blank_performance\<lparr>employee := 8, overallScore := 100, perf_endDate := 1706745600000\<rparr>]"

section \<open>Properties of saving and of the ledger\<close>

lemmas model_defs = startTimeTracking_def stopTimeTracking_def save_def pre_save_overdue_def
  pre_save_status_history_def close_session_def new_entry_def Let_def

lemma timeTracking_save [simp]: "timeTracking (save now t) = timeTracking t"
  by (simp add: save_def pre_save_overdue_def pre_save_status_history_def Let_def)

lemma assignedTo_save [simp]: "assignedTo (save now t) = assignedTo t"
  by (simp add: save_def pre_save_overdue_def pre_save_status_history_def Let_def)

lemma progress_save [simp]: "progress (save now t) = progress t"
  by (simp add: save_def pre_save_overdue_def pre_save_status_history_def Let_def)

lemma dueDate_save [simp]: "dueDate (save now t) = dueDate t"
  by (simp add: save_def pre_save_overdue_def pre_save_status_history_def Let_def)

lemma status_save:
  "status (save now t) =
     (if (\<exists>d. dueDate t = Some d \<and> d < now) \<and>
         status t \<noteq> COMPLETED \<and> status t \<noteq> CANCELLED \<and> status t \<noteq> OVERDUE
      then OVERDUE else status t)"
  by (auto simp: save_def pre_save_overdue_def pre_save_status_history_def Let_def
        split: option.splits)

lemma list_all_update_first:
  "list_all Q xs \<Longrightarrow> (\<And>x. Q x \<Longrightarrow> Q (f x)) \<Longrightarrow> list_all Q (update_first P f xs)"
  by (induction xs) auto

lemma length_update_first [simp]: "length (update_first P f xs) = length xs"
  by (induction xs) auto

lemma map_update_first_proj:
  "(\<And>x. g (f x) = g x) \<Longrightarrow> map g (update_first P f xs) = map g xs"
  by (induction xs) auto

lemma find_update_first:
  "find P xs = Some e \<Longrightarrow> P (f e) \<Longrightarrow> find P (update_first P f xs) = Some (f e)"
  by (induction xs) (auto split: if_splits)

lemma entry_balanced_close: "entry_balanced e \<Longrightarrow> entry_balanced (close_session now nts e)"
  by (simp add: entry_balanced_def close_session_def Let_def)

lemma ledger_balanced_start:
  "ledger_balanced t \<Longrightarrow> ledger_balanced (snd (startTimeTracking now u t))"
  by (auto simp: ledger_balanced_def startTimeTracking_def Let_def new_entry_def
        entry_balanced_def split: option.splits intro!: list_all_update_first)

lemma ledger_balanced_stop:
  "ledger_balanced t \<Longrightarrow> ledger_balanced (snd (stopTimeTracking now u nts t))"
  by (auto simp: ledger_balanced_def stopTimeTracking_def entry_balanced_close
        split: option.splits intro!: list_all_update_first)

lemma ledger_balanced_calls: "ledger_balanced t \<Longrightarrow> ledger_balanced (calls cs t)"
proof (induction cs arbitrary: t)
  case Nil
  then show ?case by simp
next
  case (Cons c cs)
  have "ledger_balanced (snd (call c t))"
    using Cons.prems by (cases c) (simp_all add: ledger_balanced_start ledger_balanced_stop)
  then show ?case using Cons.IH by simp
qed

text \<open>A call that throws has not touched the document.\<close>

lemma failed_call_unchanged: "fst (call c t) \<noteq> None \<Longrightarrow> snd (call c t) = t"
  by (cases c) (auto simp: startTimeTracking_def stopTimeTracking_def Let_def new_entry_def
       split: option.splits if_splits)

text \<open>
  Starting opens a session without counting anything: the totals and the recorded
  sessions stay as they were, and a user tracked for the first time gets a zeroed entry.
\<close>

lemma start_keeps_closed_time:
  "map (\<lambda>e. (totalTimeSpent e, sessions e)) (timeTracking (snd (startTimeTracking now u t))) =
   map (\<lambda>e. (totalTimeSpent e, sessions e)) (timeTracking t) @
     (if list_ex (\<lambda>a. user a = u) (assignedTo t) \<and>
         find (\<lambda>tt. tt_user tt = u) (timeTracking t) = None
      then [(0, [])] else [])"
  by (auto simp: startTimeTracking_def Let_def new_entry_def map_update_first_proj
        split: option.splits)

text \<open>
  The first start of a user succeeds and stores an inactive entry; it is the next start
  that opens a session.
\<close>

lemma first_start_stores_inactive_entry:
  assumes "list_ex (\<lambda>a. user a = u) (assignedTo t)"
    "find (\<lambda>tt. tt_user tt = u) (timeTracking t) = None"
  shows "fst (startTimeTracking now u t) = None \<and>
    timeTracking (snd (startTimeTracking now u t)) = timeTracking t @ [new_entry now u] \<and>
    \<not> isActive (new_entry now u)"
  using assms by (simp add: startTimeTracking_def Let_def new_entry_def)

lemma stop_closes:
  assumes "find (\<lambda>tt. tt_user tt = u) (timeTracking t) = Some e" "isActive e"
    "currentSessionStart e = Some s"
  shows "fst (stopTimeTracking now u nts t) = None \<and>
     find (\<lambda>tt. tt_user tt = u) (timeTracking (snd (stopTimeTracking now u nts t))) =
       Some (e\<lparr>sessions := sessions e @
                 [\<lparr>startTime = Some s, endTime = now, duration = now - s, session_notes = nts\<rparr>],
               totalTimeSpent := totalTimeSpent e + (now - s),
               lastActivity := Some now, isActive := False, currentSessionStart := None\<rparr>)"
proof -
  have u: "tt_user e = u"
    using assms(1) by (auto dest: find_Some_iff[THEN iffD1])
  have "find (\<lambda>tt. tt_user tt = u)
          (update_first (\<lambda>tt. tt_user tt = u) (close_session now nts) (timeTracking t))
        = Some (close_session now nts e)"
    using assms(1) u by (intro find_update_first) (simp_all add: close_session_def Let_def)
  then show ?thesis
    using assms by (simp add: stopTimeTracking_def close_session_def Let_def)
qed

lemma length_timeTracking_stop:
  "length (timeTracking (snd (stopTimeTracking now u nts t))) = length (timeTracking t)"
  by (simp add: stopTimeTracking_def split: option.splits)

lemma example_run:
  "map (\<lambda>e. (tt_user e, totalTimeSpent e, map duration (sessions e), isActive e))
     (timeTracking (calls example_calls example_task)) =
   [(1, 30, [30], True), (2, 0, [], False)]"
  by (simp add: example_calls_def example_task_def model_defs)

text \<open>
  Claim C4. Whatever sequence of \<^verbatim>\<open>startTimeTracking\<close> and \<^verbatim>\<open>stopTimeTracking\<close> calls
  runs on a task whose ledger is balanced (a new task has an empty ledger), failed calls
  included, every entry's \<^verbatim>\<open>totalTimeSpent\<close> is still the sum of the durations of its
  recorded sessions. A call that throws leaves the document as it was; a start changes
  no total and no session list, so an open session counts for nothing; a stop appends
  the session whose duration is the stop time minus \<^verbatim>\<open>currentSessionStart\<close>, adds that
  duration to the total and clears \<^verbatim>\<open>isActive\<close> and \<^verbatim>\<open>currentSessionStart\<close>.
\<close>

theorem ledger_total_is_sum_of_closed_sessions:
  assumes "ledger_balanced t"
  shows "ledger_balanced (calls cs t) \<and>
    (fst (call c t) \<noteq> None \<longrightarrow> snd (call c t) = t) \<and>
    map (\<lambda>e. (totalTimeSpent e, sessions e)) (timeTracking (snd (startTimeTracking now u t))) =
      map (\<lambda>e. (totalTimeSpent e, sessions e)) (timeTracking t) @
        (if list_ex (\<lambda>a. user a = u) (assignedTo t) \<and>
            find (\<lambda>tt. tt_user tt = u) (timeTracking t) = None
         then [(0, [])] else []) \<and>
    (find (\<lambda>tt. tt_user tt = u) (timeTracking t) = Some e \<and> isActive e \<and>
       currentSessionStart e = Some s \<longrightarrow>
     fst (stopTimeTracking now u nts t) = None \<and>
     find (\<lambda>tt. tt_user tt = u) (timeTracking (snd (stopTimeTracking now u nts t))) =
       Some (e\<lparr>sessions := sessions e @
                 [\<lparr>startTime = Some s, endTime = now, duration = now - s, session_notes = nts\<rparr>],
               totalTimeSpent := totalTimeSpent e + (now - s),
               lastActivity := Some now, isActive := False, currentSessionStart := None\<rparr>))"
  using assms ledger_balanced_calls failed_call_unchanged start_keeps_closed_time stop_closes
  by blast

theorem ledger_total_is_sum_of_closed_sessions_witness:
  "ledger_balanced example_task \<and> ledger_balanced (calls example_calls example_task) \<and>
   fst (call (Start 30 1) (calls [Start 10 1, Start 20 1] example_task)) =
     Some AlreadyActiveError \<and>
   snd (call (Start 30 1) (calls [Start 10 1, Start 20 1] example_task)) =
     calls [Start 10 1, Start 20 1] example_task \<and>
   map (\<lambda>e. (tt_user e, isActive e, currentSessionStart e, totalTimeSpent e,
              map (\<lambda>s. (startTime s, endTime s, duration s)) (sessions e)))
     (timeTracking (snd (stopTimeTracking 50 1 ''first''
        (calls [Start 10 1, Start 20 1] example_task)))) =
     [(1, False, None, 30, [(Some 20, 50, 30)])]"
proof -
  let ?t2 = "calls [Start 10 1, Start 20 1] example_task"
  let ?e = "\<lparr>tt_user = 1, totalTimeSpent = 0, sessions = [], isActive = True,
             currentSessionStart = Some 20, lastActivity = Some 20\<rparr>"
  have h: "ledger_balanced example_task"
    by (simp add: ledger_balanced_def example_task_def)
  have tt: "timeTracking ?t2 = [?e]"
    by (simp add: example_task_def model_defs)
  have h2: "ledger_balanced ?t2"
    using h by (rule ledger_balanced_calls)
  have f: "fst (call (Start 30 1) ?t2) = Some AlreadyActiveError"
    by (simp add: example_task_def model_defs)
  have fe: "find (\<lambda>tt. tt_user tt = 1) (timeTracking ?t2) = Some ?e \<and> isActive ?e \<and>
      currentSessionStart ?e = Some 20"
    using tt by simp
  have u: "snd (call (Start 30 1) ?t2) = ?t2"
    using f ledger_total_is_sum_of_closed_sessions [OF h2, where c = "Start 30 1"]
    by simp
  have st: "find (\<lambda>tt. tt_user tt = 1)
      (timeTracking (snd (stopTimeTracking 50 1 ''first'' ?t2))) =
      Some (?e\<lparr>sessions := sessions ?e @
                 [\<lparr>startTime = Some 20, endTime = 50, duration = 50 - 20,
                   session_notes = ''first''\<rparr>],
               totalTimeSpent := totalTimeSpent ?e + (50 - 20),
               lastActivity := Some 50, isActive := False, currentSessionStart := None\<rparr>)"
    using fe ledger_total_is_sum_of_closed_sessions [OF h2, where u = 1 and e = ?e
        and s = 20 and now = 50 and nts = "''first''"]
    by blast
  have len: "length (timeTracking (snd (stopTimeTracking 50 1 ''first'' ?t2))) = 1"
    using tt by (simp add: length_timeTracking_stop)
  obtain x where x: "timeTracking (snd (stopTimeTracking 50 1 ''first'' ?t2)) = [x]"
    using len by (cases "timeTracking (snd (stopTimeTracking 50 1 ''first'' ?t2))") auto
  have "x = ?e\<lparr>sessions := sessions ?e @
                 [\<lparr>startTime = Some 20, endTime = 50, duration = 50 - 20,
                   session_notes = ''first''\<rparr>],
               totalTimeSpent := totalTimeSpent ?e + (50 - 20),
               lastActivity := Some 50, isActive := False, currentSessionStart := None\<rparr>"
    using st unfolding x by (simp split: if_splits)
  then have m: "map (\<lambda>e. (tt_user e, isActive e, currentSessionStart e, totalTimeSpent e,
              map (\<lambda>s. (startTime s, endTime s, duration s)) (sessions e)))
     (timeTracking (snd (stopTimeTracking 50 1 ''first'' ?t2))) =
     [(1, False, None, 30, [(Some 20, 50, 30)])]"
    unfolding x by simp
  show ?thesis
    using h f u m ledger_total_is_sum_of_closed_sessions [OF h, of example_calls]
    by blast
qed

lemma saves_fixed:
  "status t = COMPLETED \<or> status t = CANCELLED \<or> status t = OVERDUE \<Longrightarrow>
   status (saves ns t) = status t"
proof (induction ns arbitrary: t)
  case Nil
  then show ?case by simp
next
  case (Cons n ns)
  have s: "status (save n t) = status t"
    using Cons.prems by (auto simp: status_save)
  with Cons.prems Cons.IH [of "save n t"] show ?case by simp
qed

text \<open>
  Claim C6. A save sets the status to overdue exactly when the due date is past and the
  status is none of completed, cancelled and overdue, and leaves it alone otherwise. So
  a pending task past its due date is overdue after the save and stays overdue through
  any further saves, and a completed or cancelled task keeps its status through any
  saves, whatever its due date.
\<close>

theorem overdue_on_save:
  "status (save now t) =
     (if (\<exists>d. dueDate t = Some d \<and> d < now) \<and>
         status t \<noteq> COMPLETED \<and> status t \<noteq> CANCELLED \<and> status t \<noteq> OVERDUE
      then OVERDUE else status t) \<and>
   (dueDate t = Some d \<and> d < now \<and> status t = PENDING \<longrightarrow>
      status (save now t) = OVERDUE \<and> status (saves ns (save now t)) = OVERDUE) \<and>
   (status t = COMPLETED \<or> status t = CANCELLED \<longrightarrow> status (saves ns t) = status t)"
proof -
  have a: "dueDate t = Some d \<and> d < now \<and> status t = PENDING \<longrightarrow>
      status (save now t) = OVERDUE \<and> status (saves ns (save now t)) = OVERDUE"
  proof
    assume h: "dueDate t = Some d \<and> d < now \<and> status t = PENDING"
    then have "status (save now t) = OVERDUE"
      by (simp add: status_save)
    then show "status (save now t) = OVERDUE \<and> status (saves ns (save now t)) = OVERDUE"
      using saves_fixed [of "save now t" ns] by simp
  qed
  have b: "status t = COMPLETED \<or> status t = CANCELLED \<longrightarrow> status (saves ns t) = status t"
    using saves_fixed [of t ns] by blast
  show ?thesis
    using status_save [of now t] a b by blast
qed

theorem overdue_on_save_witness:
  "status (save 2000 example_task) = OVERDUE \<and>
   status (saves [2500, 3000] (save 2000 example_task)) = OVERDUE \<and>
   status (saves [2000, 2500] (example_task\<lparr>status := COMPLETED\<rparr>)) = COMPLETED \<and>
   status (save 500 example_task) = PENDING"
proof -
  have h: "dueDate example_task = Some 1000 \<and> (1000::int) < 2000 \<and> status example_task = PENDING"
    by (simp add: example_task_def)
  have c: "status (example_task\<lparr>status := COMPLETED\<rparr>) = COMPLETED"
    by simp
  have p: "status (save 500 example_task) = PENDING"
    using overdue_on_save [where now = 500 and t = example_task] by (simp add: example_task_def)
  show ?thesis
    using h c p
      overdue_on_save [where t = example_task and d = 1000 and now = 2000 and ns = "[2500, 3000]"]
      overdue_on_save [where t = "example_task\<lparr>status := COMPLETED\<rparr>" and ns = "[2000, 2500]"]
    by simp
qed

section \<open>Properties of completion and of the roster\<close>

lemma find_distinct_nth:
  "distinct (map g xs) \<Longrightarrow> i < length xs \<Longrightarrow> find (\<lambda>x. g x = g (xs ! i)) xs = Some (xs ! i)"
proof (induction xs arbitrary: i)
  case Nil
  then show ?case by simp
next
  case (Cons x xs)
  show ?case
  proof (cases i)
    case 0
    then show ?thesis by simp
  next
    case (Suc j)
    with Cons.prems have "g x \<noteq> g (xs ! j)" by auto
    with Cons Suc show ?thesis by simp
  qed
qed

lemma update_first_distinct_nth:
  "distinct (map g xs) \<Longrightarrow> i < length xs \<Longrightarrow>
   update_first (\<lambda>x. g x = g (xs ! i)) f xs = xs[i := f (xs ! i)]"
proof (induction xs arbitrary: i)
  case Nil
  then show ?case by simp
next
  case (Cons x xs)
  show ?case
  proof (cases i)
    case 0
    then show ?thesis by simp
  next
    case (Suc j)
    with Cons.prems have "g x \<noteq> g (xs ! j)" by auto
    with Cons Suc show ?thesis by simp
  qed
qed

lemma tt_user_close [simp]: "tt_user (close_session now nts e) = tt_user e"
  by (simp add: close_session_def Let_def)

lemma tt_user_close_if_active [simp]: "tt_user (close_if_active now nts e) = tt_user e"
  by (simp add: close_if_active_def)

lemma take_drop_step:
  "i < length xs \<Longrightarrow> y = f (xs ! i) \<Longrightarrow>
   take (Suc i) (xs[i := y]) @ map f (drop (Suc i) (xs[i := y])) =
   take i xs @ map f (drop i xs)"
  by (simp add: take_Suc_conv_app_nth Cons_nth_drop_Suc [symmetric])

lemma completed_save:
  "status t = COMPLETED \<Longrightarrow> completedDate t = Some now \<Longrightarrow>
   status (save now t) = COMPLETED \<and> completedDate (save now t) = Some now"
  by (simp add: save_def pre_save_overdue_def pre_save_status_history_def Let_def)

lemma stop_nth_distinct:
  assumes "distinct (map tt_user (timeTracking t))" "i < length (timeTracking t)"
    "isActive (timeTracking t ! i)"
  shows "stopTimeTracking now (tt_user (timeTracking t ! i)) nts t =
     (None, save now (t\<lparr>timeTracking :=
        (timeTracking t)[i := close_session now nts (timeTracking t ! i)]\<rparr>))"
  using assms find_distinct_nth [of tt_user "timeTracking t" i]
    update_first_distinct_nth [of tt_user "timeTracking t" i "close_session now nts"]
  by (simp add: stopTimeTracking_def)

lemma map_tt_user_update:
  "i < length xs \<Longrightarrow> map tt_user (xs[i := close_session now nts (xs ! i)]) = map tt_user xs"
  by (simp add: map_update list_update_same_conv)

lemma stop_active_from_distinct:
  "distinct (map tt_user (timeTracking t)) \<Longrightarrow> status t = COMPLETED \<Longrightarrow>
   completedDate t = Some now \<Longrightarrow>
   fst (stop_active_from now i t) = None \<and>
   timeTracking (snd (stop_active_from now i t)) =
     take i (timeTracking t) @ map (close_if_active now ''Task completed'') (drop i (timeTracking t)) \<and>
   status (snd (stop_active_from now i t)) = COMPLETED \<and>
   completedDate (snd (stop_active_from now i t)) = Some now \<and>
   progress (snd (stop_active_from now i t)) = progress t \<and>
   assignedTo (snd (stop_active_from now i t)) = assignedTo t"
proof (induction now i t rule: stop_active_from.induct)
  case (1 now i t)
  let ?tts = "timeTracking t"
  show ?case
  proof (cases "i < length ?tts")
    case False
    then show ?thesis using "1.prems" by (subst (1 2 3 4 5 6) stop_active_from.simps) simp
  next
    case len: True
    show ?thesis
    proof (cases "isActive (?tts ! i)")
      case False
      have eq: "stop_active_from now i t = stop_active_from now (i + 1) t"
        using len False by (subst stop_active_from.simps) simp
      have ih: "fst (stop_active_from now (i + 1) t) = None \<and>
        timeTracking (snd (stop_active_from now (i + 1) t)) =
          take (i + 1) ?tts @ map (close_if_active now ''Task completed'') (drop (i + 1) ?tts) \<and>
        status (snd (stop_active_from now (i + 1) t)) = COMPLETED \<and>
        completedDate (snd (stop_active_from now (i + 1) t)) = Some now \<and>
        progress (snd (stop_active_from now (i + 1) t)) = progress t \<and>
        assignedTo (snd (stop_active_from now (i + 1) t)) = assignedTo t"
        using "1.IH"(2) [OF len refl False] "1.prems" by simp
      have "take (Suc i) (?tts[i := ?tts ! i]) @
              map (close_if_active now ''Task completed'') (drop (Suc i) (?tts[i := ?tts ! i])) =
            take i ?tts @ map (close_if_active now ''Task completed'') (drop i ?tts)"
        using len False by (intro take_drop_step) (simp_all add: close_if_active_def)
      then show ?thesis using eq ih by simp
    next
      case True
      let ?t' = "save now (t\<lparr>timeTracking :=
         ?tts[i := close_session now ''Task completed'' (?tts ! i)]\<rparr>)"
      have st: "stopTimeTracking now (tt_user (?tts ! i)) ''Task completed'' t = (None, ?t')"
        using stop_nth_distinct [OF "1.prems"(1) len True] .
      have eq: "stop_active_from now i t = stop_active_from now (i + 1) ?t'"
        using len True st by (subst stop_active_from.simps) simp
      have d': "distinct (map tt_user (timeTracking ?t'))"
        using "1.prems"(1) len by (simp add: map_tt_user_update)
      have c': "status ?t' = COMPLETED \<and> completedDate ?t' = Some now"
        using "1.prems" by (intro completed_save) simp_all
      have ih: "fst (stop_active_from now (i + 1) ?t') = None \<and>
        timeTracking (snd (stop_active_from now (i + 1) ?t')) =
          take (i + 1) (timeTracking ?t') @
            map (close_if_active now ''Task completed'') (drop (i + 1) (timeTracking ?t')) \<and>
        status (snd (stop_active_from now (i + 1) ?t')) = COMPLETED \<and>
        completedDate (snd (stop_active_from now (i + 1) ?t')) = Some now \<and>
        progress (snd (stop_active_from now (i + 1) ?t')) = progress ?t' \<and>
        assignedTo (snd (stop_active_from now (i + 1) ?t')) = assignedTo ?t'"
        using "1.IH"(1) [OF len refl True st [symmetric] refl d'] c' by simp
      have "take (Suc i) (?tts[i := close_session now ''Task completed'' (?tts ! i)]) @
              map (close_if_active now ''Task completed'')
                (drop (Suc i) (?tts[i := close_session now ''Task completed'' (?tts ! i)])) =
            take i ?tts @ map (close_if_active now ''Task completed'') (drop i ?tts)"
        using len True by (intro take_drop_step) (simp_all add: close_if_active_def)
      then show ?thesis using eq ih by simp
    qed
  qed
qed

text \<open>
  The complete action, on a ledger with one entry per user: it never throws, the task is
  completed at \<open>now\<close>, the progress is at its end, and every active entry has been
  closed with the note \<^verbatim>\<open>Task completed\<close>.
\<close>

lemma markAsCompleted_distinct:
  assumes "distinct (map tt_user (timeTracking t))"
  shows "fst (markAsCompleted now u t) = None \<and>
    status (snd (markAsCompleted now u t)) = COMPLETED \<and>
    completedDate (snd (markAsCompleted now u t)) = Some now \<and>
    progress (snd (markAsCompleted now u t)) =
      (progress t)\<lparr>currentPhase := completed, percentage := 100\<rparr> \<and>
    timeTracking (snd (markAsCompleted now u t)) =
      map (close_if_active now ''Task completed'') (timeTracking t)"
proof -
  let ?t1 = "t\<lparr>status := COMPLETED, completedDate := Some now, modifiedBy := Some u,
                 progress := (progress t)\<lparr>currentPhase := completed, percentage := 100\<rparr>\<rparr>"
  have l: "fst (stop_active_from now 0 ?t1) = None \<and>
   timeTracking (snd (stop_active_from now 0 ?t1)) =
     take 0 (timeTracking ?t1) @ map (close_if_active now ''Task completed'') (drop 0 (timeTracking ?t1)) \<and>
   status (snd (stop_active_from now 0 ?t1)) = COMPLETED \<and>
   completedDate (snd (stop_active_from now 0 ?t1)) = Some now \<and>
   progress (snd (stop_active_from now 0 ?t1)) = progress ?t1 \<and>
   assignedTo (snd (stop_active_from now 0 ?t1)) = assignedTo ?t1"
    using assms by (intro stop_active_from_distinct) simp_all
  obtain e t2 where r: "stop_active_from now 0 ?t1 = (e, t2)" by (cases "stop_active_from now 0 ?t1")
  with l have e: "e = None" by simp
  have m: "markAsCompleted now u t = (None, save now t2)"
    using r e by (simp add: markAsCompleted_def Let_def)
  have "status t2 = COMPLETED" "completedDate t2 = Some now" using l r by simp_all
  then have "status (save now t2) = COMPLETED \<and> completedDate (save now t2) = Some now"
    by (intro completed_save)
  then show ?thesis using m l r by simp
qed

text \<open>
  Claim C5. The claim holds for the complete action (\<open>markAsCompleted_distinct\<close>) and
  fails for a status update. On \<open>running_task\<close>: assigning the completed status and
  saving sets \<^verbatim>\<open>completedDate\<close>, but the session of user 1 stays open and the progress
  stays at development, 40; the controller's update writes the status and nothing
  else, not even \<^verbatim>\<open>completedDate\<close>; the complete action closes the session with the note
  and puts the progress at completed, 100.
\<close>

theorem completing_by_status_update_misses_side_effects:
  "(let t' = save 500 (running_task\<lparr>status := COMPLETED\<rparr>)
    in status t' = COMPLETED \<and> completedDate t' = Some 500 \<and>
       map isActive (timeTracking t') = [True] \<and> map sessions (timeTracking t') = [[]] \<and>
       progress t' = \<lparr>currentPhase = development, percentage = 40\<rparr>) \<and>
   (let t' = findByIdAndUpdate_status COMPLETED running_task
    in status t' = COMPLETED \<and> completedDate t' = None \<and>
       map isActive (timeTracking t') = [True] \<and>
       progress t' = \<lparr>currentPhase = development, percentage = 40\<rparr>) \<and>
   (let t' = snd (markAsCompleted 500 1 running_task)
    in status t' = COMPLETED \<and> completedDate t' = Some 500 \<and>
       map isActive (timeTracking t') = [False] \<and>
       map (map session_notes \<circ> sessions) (timeTracking t') = [[''Task completed'']] \<and>
       map totalTimeSpent (timeTracking t') = [490] \<and>
       progress t' = \<lparr>currentPhase = completed, percentage = 100\<rparr>)"
proof -
  have d: "distinct (map tt_user (timeTracking running_task))"
    by (simp add: running_task_def)
  have a: "timeTracking (snd (markAsCompleted 500 1 running_task)) =
      map (close_if_active 500 ''Task completed'') (timeTracking running_task)"
    using markAsCompleted_distinct [OF d] by blast
  show ?thesis
    using markAsCompleted_distinct [OF d, of 500 1]
    by (simp add: a)
      (simp add: running_task_def model_defs findByIdAndUpdate_status_def close_if_active_def)
qed

lemma filter_update_first:
  "(\<And>x. P x \<Longrightarrow> P (f x)) \<Longrightarrow>
   filter (\<lambda>x. \<not> P x) (update_first P f xs) = filter (\<lambda>x. \<not> P x) xs"
  by (induction xs) auto

lemma stop_active_entry:
  assumes "find (\<lambda>tt. tt_user tt = u) (timeTracking t) = Some e" "isActive e"
  shows "stopTimeTracking now u nts t =
     (None, save now (t\<lparr>timeTracking :=
        update_first (\<lambda>tt. tt_user tt = u) (close_session now nts) (timeTracking t)\<rparr>))"
  using assms by (simp add: stopTimeTracking_def)

lemma filter_after_stop:
  "filter (\<lambda>tt. tt_user tt \<noteq> u) (timeTracking (snd (stopTimeTracking now u nts t))) =
   filter (\<lambda>tt. tt_user tt \<noteq> u) (timeTracking t)"
  by (auto simp: stopTimeTracking_def filter_update_first split: option.splits)

lemma assignedTo_stop [simp]:
  "assignedTo (snd (stopTimeTracking now u nts t)) = assignedTo t"
  by (simp add: stopTimeTracking_def split: option.splits)

lemma not_list_ex_filter: "\<not> list_ex P (filter (\<lambda>x. \<not> P x) xs)"
  by (simp add: list_ex_iff)

text \<open>
  Claim C9. With a roster of at most one assignee \<^verbatim>\<open>removeAssignee\<close> throws the
  last-assignee error and the document is untouched. With two or more it succeeds: when
  the user's entry is active it is first stopped by
  \<^verbatim>\<open>stopTimeTracking(userId, 'Removed from task')\<close>, which succeeds and saves, and then
  every roster entry and every ledger entry of that user is gone while the other
  entries are kept.
\<close>

theorem removeAssignee_last_or_removed:
  "(length (assignedTo t) \<le> 1 \<longrightarrow> removeAssignee now u t = (Some LastAssigneeError, t)) \<and>
   (1 < length (assignedTo t) \<longrightarrow>
      (let active = (case find (\<lambda>tt. tt_user tt = u) (timeTracking t) of
                       None \<Rightarrow> False | Some e \<Rightarrow> isActive e);
           t1 = (if active then snd (stopTimeTracking now u ''Removed from task'' t) else t);
           t' = snd (removeAssignee now u t)
       in fst (removeAssignee now u t) = None \<and>
          (active \<longrightarrow> stopTimeTracking now u ''Removed from task'' t =
             (None, save now (t\<lparr>timeTracking :=
                update_first (\<lambda>tt. tt_user tt = u) (close_session now ''Removed from task'')
                  (timeTracking t)\<rparr>))) \<and>
          t' = save now (t1\<lparr>assignedTo := filter (\<lambda>a. user a \<noteq> u) (assignedTo t1),
                             timeTracking := filter (\<lambda>tt. tt_user tt \<noteq> u) (timeTracking t1)\<rparr>) \<and>
          assignedTo t' = filter (\<lambda>a. user a \<noteq> u) (assignedTo t) \<and>
          timeTracking t' = filter (\<lambda>tt. tt_user tt \<noteq> u) (timeTracking t) \<and>
          \<not> list_ex (\<lambda>a. user a = u) (assignedTo t') \<and>
          \<not> list_ex (\<lambda>tt. tt_user tt = u) (timeTracking t')))"
proof -
  have a: "length (assignedTo t) \<le> 1 \<longrightarrow> removeAssignee now u t = (Some LastAssigneeError, t)"
    by (simp add: removeAssignee_def)
  have b: "?thesis" if len: "1 < length (assignedTo t)"
  proof (cases "find (\<lambda>tt. tt_user tt = u) (timeTracking t)")
    case None
    then show ?thesis
      using len by (simp add: removeAssignee_def Let_def not_list_ex_filter)
  next
    case (Some e)
    show ?thesis
    proof (cases "isActive e")
      case False
      then show ?thesis
        using len Some by (simp add: removeAssignee_def Let_def not_list_ex_filter)
    next
      case True
      note st = stop_active_entry [OF Some True, of now "''Removed from task''"]
      show ?thesis
        using len Some True filter_after_stop [of u now "''Removed from task''" t]
        by (simp add: removeAssignee_def Let_def st not_list_ex_filter)
    qed
  qed
  show ?thesis
  proof (cases "1 < length (assignedTo t)")
    case True
    then show ?thesis by (rule b)
  next
    case False
    then show ?thesis using a by simp
  qed
qed

theorem removeAssignee_last_or_removed_witness:
  "removeAssignee 50 1 solo_task = (Some LastAssigneeError, solo_task) \<and>
   fst (removeAssignee 50 1 running_task) = None \<and>
   map user (assignedTo (snd (removeAssignee 50 1 running_task))) = [2] \<and>
   timeTracking (snd (removeAssignee 50 1 running_task)) = [] \<and>
   map (\<lambda>e. (isActive e, map (\<lambda>s. (duration s, session_notes s)) (sessions e)))
     (timeTracking (snd (stopTimeTracking 50 1 ''Removed from task'' running_task))) =
     [(False, [(40, ''Removed from task'')])]"
proof -
  have s: "length (assignedTo solo_task) \<le> 1"
    by (simp add: solo_task_def)
  have r: "1 < length (assignedTo running_task)"
    by (simp add: running_task_def)
  have x: "map (\<lambda>e. (isActive e, map (\<lambda>s. (duration s, session_notes s)) (sessions e)))
     (timeTracking (snd (stopTimeTracking 50 1 ''Removed from task'' running_task))) =
     [(False, [(40, ''Removed from task'')])]"
    by (simp add: running_task_def model_defs)
  have y: "map user (filter (\<lambda>a. user a \<noteq> 1) (assignedTo running_task)) = [2]"
      "filter (\<lambda>tt. tt_user tt \<noteq> 1) (timeTracking running_task) = []"
    by (simp_all add: running_task_def)
  have a: "removeAssignee 50 1 solo_task = (Some LastAssigneeError, solo_task)"
    using s removeAssignee_last_or_removed [of solo_task 50 1] by blast
  have b: "fst (removeAssignee 50 1 running_task) = None \<and>
      assignedTo (snd (removeAssignee 50 1 running_task)) =
        filter (\<lambda>a. user a \<noteq> 1) (assignedTo running_task) \<and>
      timeTracking (snd (removeAssignee 50 1 running_task)) =
        filter (\<lambda>tt. tt_user tt \<noteq> 1) (timeTracking running_task)"
    using r removeAssignee_last_or_removed [of running_task 50 1, unfolded Let_def] by blast
  show ?thesis
    using a b x y by simp
qed

text \<open>
  The complete action and the removal of an assignee keep the ledger balanced as well.
\<close>

lemma ledger_balanced_save [simp]: "ledger_balanced (save now t) = ledger_balanced t"
  by (simp add: ledger_balanced_def)

lemma ledger_balanced_stop_active_from:
  "ledger_balanced t \<Longrightarrow> ledger_balanced (snd (stop_active_from now i t))"
proof (induction now i t rule: stop_active_from.induct)
  case (1 now i t)
  show ?case
  proof (cases "i < length (timeTracking t)")
    case False
    then show ?thesis
      using "1.prems" by (subst stop_active_from.simps) simp
  next
    case len: True
    show ?thesis
    proof (cases "isActive (timeTracking t ! i)")
      case False
      then show ?thesis
        using len "1.IH"(2) [OF len refl False "1.prems"]
        by (subst stop_active_from.simps) simp
    next
      case True
      obtain e t' where st:
        "stopTimeTracking now (tt_user (timeTracking t ! i)) ''Task completed'' t = (e, t')"
        by (cases "stopTimeTracking now (tt_user (timeTracking t ! i)) ''Task completed'' t")
      have b: "ledger_balanced t'"
        using ledger_balanced_stop [OF "1.prems", of now "tt_user (timeTracking t ! i)"
            "''Task completed''"] st by simp
      show ?thesis
      proof (cases e)
        case None
        then show ?thesis
          using len True st "1.IH"(1) [OF len refl True _ _ b, of e] 
          by (subst stop_active_from.simps) simp
      next
        case (Some err)
        then show ?thesis
          using len True st b by (subst stop_active_from.simps) simp
      qed
    qed
  qed
qed

lemma ledger_balanced_markAsCompleted:
  "ledger_balanced t \<Longrightarrow> ledger_balanced (snd (markAsCompleted now u t))"
proof -
  assume b: "ledger_balanced t"
  let ?t1 = "t\<lparr>status := COMPLETED, completedDate := Some now, modifiedBy := Some u,
                 progress := (progress t)\<lparr>currentPhase := completed, percentage := 100\<rparr>\<rparr>"
  have "ledger_balanced ?t1"
    using b by (simp add: ledger_balanced_def)
  then have "ledger_balanced (snd (stop_active_from now 0 ?t1))"
    by (rule ledger_balanced_stop_active_from)
  then show ?thesis
    by (auto simp: markAsCompleted_def Let_def split: prod.splits option.splits)
qed

lemma ledger_balanced_removeAssignee:
  "ledger_balanced t \<Longrightarrow> ledger_balanced (snd (removeAssignee now u t))"
proof -
  assume b: "ledger_balanced t"
  have f: "ledger_balanced (x\<lparr>assignedTo := as,
      timeTracking := filter (\<lambda>tt. tt_user tt \<noteq> u) (timeTracking x)\<rparr>)"
    if "ledger_balanced x" for x as
    using that by (simp add: ledger_balanced_def list_all_iff)
  have s: "ledger_balanced (snd (stopTimeTracking now u ''Removed from task'' t))"
    using b by (rule ledger_balanced_stop)
  show ?thesis
    using b s f
    by (auto simp: removeAssignee_def Let_def split: prod.splits option.splits)
qed

section \<open>Properties of the scoring engine\<close>

lemma totalScore_pair:
  "totalScore (score_task_assignee t u s) =
     totalScore s +
     (if status t = COMPLETED then
        50 +
        (if \<exists>c d. completedDate t = Some c \<and> dueDate t = Some d \<and> c \<le> d then 30 else 10) +
        (if \<exists>est tt. estimatedHours t = Some est \<and> est \<noteq> 0 \<and>
              find (\<lambda>tt. tt_user tt = u) (timeTracking t) = Some tt \<and>
              of_int (totalTimeSpent tt) / (1000 * 60 * 60) < est
         then 20 else 0)
      else if status t = IN_PROGRESS then 10 else 0) +
     (if 0 < percentage (progress t) then js_round (percentage (progress t) / 10) else 0)"
  by (auto simp: score_task_assignee_def Let_def split: option.splits)

lemma totalScore_pair_points:
  "totalScore (score_task_assignee t u s) = totalScore s + points t u"
  by (simp add: points_def totalScore_pair initial_score_def)

lemma score_of_score_assignee:
  "score_of (score_assignee t sc a) u =
     score_of sc u + (if user a = u then points t u else 0)"
  by (auto simp: score_of_def score_assignee_def Let_def update_conv' totalScore_pair_points
        initial_score_def split: option.splits)

lemma score_of_inner:
  "score_of (foldl (score_assignee t) sc as) u =
     score_of sc u + (\<Sum>a\<leftarrow>filter (\<lambda>a. user a = u) as. points t u)"
  by (induction as arbitrary: sc) (simp_all add: score_of_score_assignee)

lemma score_of_outer:
  "score_of (foldl (\<lambda>sc t. foldl (score_assignee t) sc (assignedTo t)) sc ts) u =
     score_of sc u + (\<Sum>t\<leftarrow>ts. \<Sum>a\<leftarrow>filter (\<lambda>a. user a = u) (assignedTo t). points t u)"
  by (induction ts arbitrary: sc) (simp_all add: score_of_inner)

lemma score_of_accumulate:
  "score_of (accumulate_scores ts) u =
     (\<Sum>t\<leftarrow>ts. \<Sum>a\<leftarrow>filter (\<lambda>a. user a = u) (assignedTo t). points t u)"
  by (simp add: accumulate_scores_def score_of_outer) (simp add: score_of_def)

text \<open>
  With a ledger total that is not negative, the test for a non-zero estimate adds
  nothing to the comparison of the hours.
\<close>

lemma efficiency_guard_nonneg:
  "0 \<le> totalTimeSpent tt \<Longrightarrow>
   (est \<noteq> 0 \<and> of_int (totalTimeSpent tt) / (1000 * 60 * 60) < est) =
   (of_int (totalTimeSpent tt) / (1000 * 60 * 60) < (est::rat))"
proof -
  assume "0 \<le> totalTimeSpent tt"
  then have "(0::rat) \<le> of_int (totalTimeSpent tt) / (1000 * 60 * 60)"
    by simp
  then show ?thesis
    by auto
qed

text \<open>
  Claim C1. For a task and one of its assignees, the loop body adds to the assignee's
  \<^verbatim>\<open>totalScore\<close>: for a completed task 50, then 30 when \<^verbatim>\<open>completedDate\<close> is at or
  before \<^verbatim>\<open>dueDate\<close> and 10 otherwise, then 20 when \<^verbatim>\<open>estimatedHours\<close> is set (the
  source's truthiness test: present and not 0) and the assignee's ledger total, in
  hours, is strictly below it; for a task in progress 10; and in both cases the
  progress bonus. The score an employee ends with is the sum of these contributions
  over the tasks of the window and over the roster entries naming the employee. The
  scenario of the specification scores exactly 100.
\<close>

theorem scoring_rules:
  "totalScore (score_task_assignee t u s) =
     totalScore s +
     (if status t = COMPLETED then
        50 +
        (if \<exists>c d. completedDate t = Some c \<and> dueDate t = Some d \<and> c \<le> d then 30 else 10) +
        (if \<exists>est tt. estimatedHours t = Some est \<and> est \<noteq> 0 \<and>
              find (\<lambda>tt. tt_user tt = u) (timeTracking t) = Some tt \<and>
              of_int (totalTimeSpent tt) / (1000 * 60 * 60) < est
         then 20 else 0)
      else if status t = IN_PROGRESS then 10 else 0) +
     (if 0 < percentage (progress t) then js_round (percentage (progress t) / 10) else 0) \<and>
   (case map_of (accumulate_scores (find_tasks windowStart windowEnd db)) u of
      None \<Rightarrow> 0 | Some e \<Rightarrow> totalScore e) =
     (\<Sum>t\<leftarrow>find_tasks windowStart windowEnd db.
        \<Sum>a\<leftarrow>filter (\<lambda>a. user a = u) (assignedTo t).
          totalScore (score_task_assignee t u (initial_score u)))"
  using totalScore_pair [of t u s]
    score_of_accumulate [of "find_tasks windowStart windowEnd db" u]
  by (simp only: score_of_def points_def)

theorem scoring_rules_witness:
  "totalScore (score_task_assignee scenario_task 7 (initial_score 7)) = 100 \<and>
   map (\<lambda>e. (score_user e, totalScore e))
     (allRankings (calculateEmployeeOfTheMonth 1704067200000 1706745599000 [scenario_task])) =
     [(7, 100)]"
proof -
  have a: "totalScore (score_task_assignee scenario_task 7 (initial_score 7)) = 100"
    using scoring_rules [of scenario_task 7 "initial_score 7"]
    by (simp add: scenario_task_def initial_score_def)
  have b: "accumulate_scores [scenario_task] =
      [(7, score_task_assignee scenario_task 7 (initial_score 7))]"
    by (simp add: accumulate_scores_def score_assignee_def scenario_task_def)
  have c: "find_tasks 1704067200000 1706745599000 [scenario_task] = [scenario_task]"
    by (simp add: find_tasks_def scenario_task_def)
  have d: "tasksCompleted (score_task_assignee scenario_task 7 (initial_score 7)) = 1"
    by (simp add: score_task_assignee_def scenario_task_def initial_score_def)
  have e: "score_user (score_task_assignee scenario_task 7 (initial_score 7)) = 7"
    by (simp add: score_task_assignee_def scenario_task_def initial_score_def)
  show ?thesis
    using a d e by (simp add: calculateEmployeeOfTheMonth_def b c finalize_score_def Let_def)
qed







text \<open>The accumulated object is keyed in that sense.\<close>

lemma score_user_pair [simp]: "score_user (score_task_assignee t u s) = score_user s"
  by (simp add: score_task_assignee_def Let_def split: option.splits)

lemma score_user_finalize [simp]: "score_user (finalize_score s) = score_user s"
  by (simp add: finalize_score_def Let_def)

lemma list_all_update:
  "list_all P sc \<Longrightarrow> P (k, v) \<Longrightarrow> list_all P (AList.update k v sc)"
  by (induction sc) auto

lemma keyed_score_assignee: "keyed sc \<Longrightarrow> keyed (score_assignee t sc a)"
proof -
  assume k: "keyed sc"
  have "score_user (case map_of sc (user a) of None \<Rightarrow> initial_score (user a) | Some s \<Rightarrow> s) = user a"
  proof (cases "map_of sc (user a)")
    case None
    then show ?thesis by (simp add: initial_score_def)
  next
    case (Some s)
    then have "(user a, s) \<in> set sc" by (rule map_of_SomeD)
    with k show ?thesis using Some by (auto simp: keyed_def list_all_iff)
  qed
  with k show ?thesis
    by (simp add: keyed_def score_assignee_def Let_def distinct_update list_all_update)
qed

lemma keyed_inner: "keyed sc \<Longrightarrow> keyed (foldl (score_assignee t) sc as)"
  by (induction as arbitrary: sc) (simp_all add: keyed_score_assignee)

lemma keyed_outer:
  "keyed sc \<Longrightarrow> keyed (foldl (\<lambda>sc t. foldl (score_assignee t) sc (assignedTo t)) sc ts)"
  by (induction ts arbitrary: sc) (simp_all add: keyed_inner)

lemma keyed_accumulate: "keyed (accumulate_scores ts)"
  unfolding accumulate_scores_def by (rule keyed_outer) (simp add: keyed_def)

lemma keyed_users:
  "keyed sc \<Longrightarrow> map (\<lambda>x. score_user (finalize_score (snd x))) sc = map fst sc"
  by (induction sc) (auto simp: keyed_def)

lemma distinct_users_accumulate:
  "distinct (map score_user (map finalize_score (map snd (accumulate_scores ts))))"
proof -
  have e: "map score_user (map finalize_score (map snd (accumulate_scores ts))) =
      map fst (accumulate_scores ts)"
    using keyed_users [OF keyed_accumulate, of ts] by (simp add: comp_def)
  have d: "distinct (map fst (accumulate_scores ts))"
    using keyed_accumulate [of ts] by (simp add: keyed_def)
  show ?thesis
    by (simp only: e d)
qed

lemma distinct_map_sort_key: "distinct (map g (sort_key f xs)) = distinct (map g xs)"
proof -
  have "mset (map g (sort_key f xs)) = mset (map g xs)" by simp
  then show ?thesis by (rule mset_eq_imp_distinct_iff)
qed

text \<open>
  Claim C2. \<^verbatim>\<open>allRankings\<close> holds exactly the finalised records of the accumulated
  employees whose \<^verbatim>\<open>tasksCompleted\<close> is positive, each employee once, ordered by
  \<^verbatim>\<open>totalScore\<close> from the largest down, records of equal score keeping the order in
  which the employees were first met; \<^verbatim>\<open>employeeOfTheMonth\<close> is the first of them, or
  \<^verbatim>\<open>null\<close> when there is none, and \<^verbatim>\<open>topPerformers\<close> is the first five.
\<close>

theorem rankings_filtered_and_sorted:
  "(let r = calculateEmployeeOfTheMonth windowStart windowEnd db;
        scored = map finalize_score (map snd (accumulate_scores (find_tasks windowStart windowEnd db)))
    in mset (allRankings r) = mset (filter (\<lambda>e. 0 < tasksCompleted e) scored) \<and>
       (\<forall>k. filter (\<lambda>e. totalScore e = k) (allRankings r) =
            filter (\<lambda>e. totalScore e = k) (filter (\<lambda>e. 0 < tasksCompleted e) scored)) \<and>
       distinct (map score_user (allRankings r)) \<and>
       sorted_wrt (\<lambda>a b. totalScore b \<le> totalScore a) (allRankings r) \<and>
       employeeOfTheMonth r = (case allRankings r of [] \<Rightarrow> None | e # _ \<Rightarrow> Some e) \<and>
       topPerformers r = take 5 (allRankings r) \<and>
       periodStart r = windowStart \<and> periodEnd r = windowEnd)"
proof -
  let ?scored = "map finalize_score (map snd (accumulate_scores (find_tasks windowStart windowEnd db)))"
  let ?kept = "filter (\<lambda>e. 0 < tasksCompleted e) ?scored"
  let ?r = "calculateEmployeeOfTheMonth windowStart windowEnd db"
  have all: "allRankings ?r = sort_key (\<lambda>s. - totalScore s) ?kept"
    by (simp add: calculateEmployeeOfTheMonth_def Let_def)
  have m: "mset (allRankings ?r) = mset ?kept"
    by (simp add: all)
  have st: "filter (\<lambda>e. totalScore e = k) (allRankings ?r) = filter (\<lambda>e. totalScore e = k) ?kept" for k
    using sort_key_stable [of "\<lambda>s. - totalScore s" "- k" ?kept] by (simp add: all)
  have d: "distinct (map score_user (allRankings ?r))"
    using distinct_users_accumulate [of "find_tasks windowStart windowEnd db"]
    by (simp add: all distinct_map_sort_key distinct_map_filter)
  have "sorted (map (\<lambda>s. - totalScore s) (allRankings ?r))"
    by (simp add: all)
  then have so: "sorted_wrt (\<lambda>a b. totalScore b \<le> totalScore a) (allRankings ?r)"
    by (simp add: sorted_map)
  have rest: "employeeOfTheMonth ?r = (case allRankings ?r of [] \<Rightarrow> None | e # _ \<Rightarrow> Some e) \<and>
       topPerformers ?r = take 5 (allRankings ?r) \<and>
       periodStart ?r = windowStart \<and> periodEnd ?r = windowEnd"
    by (simp add: calculateEmployeeOfTheMonth_def Let_def)
  show ?thesis
    unfolding Let_def using m st d so rest by blast
qed

lemma js_round_of_int [simp]: "js_round (of_int n) = n"
  unfolding js_round_def by (rule floor_unique) simp_all

lemma js_round_numeral [simp]: "js_round (numeral n) = numeral n"
  using js_round_of_int [of "numeral n"] by simp

lemma js_round_zero [simp]: "js_round 0 = 0"
  using js_round_of_int [of 0] by simp

lemma example_db_scores:
  "map (\<lambda>x. (fst x, totalScore (snd x), tasksCompleted (snd x)))
     (accumulate_scores (find_tasks 0 1706745599000 example_db)) =
   [(1, 14, 0), (2, 84, 1), (7, 190, 2)]"
  by (simp add: example_db_def find_tasks_def accumulate_scores_def score_assignee_def
        score_task_assignee_def initial_score_def running_task_def late_task_def
        scenario_task_def example_task_def Let_def)

lemma example_db_rankings:
  "map (\<lambda>e. (score_user e, totalScore e, tasksCompleted e))
     (allRankings (calculateEmployeeOfTheMonth 0 1706745599000 example_db)) =
   [(7, 190, 2), (2, 84, 1)]"
  by (simp add: calculateEmployeeOfTheMonth_def finalize_score_def
        example_db_def find_tasks_def accumulate_scores_def score_assignee_def
        score_task_assignee_def initial_score_def running_task_def late_task_def
        scenario_task_def example_task_def Let_def)

theorem rankings_filtered_and_sorted_witness:
  "map (\<lambda>e. (score_user e, totalScore e, tasksCompleted e))
     (allRankings (calculateEmployeeOfTheMonth 0 1706745599000 example_db)) =
     [(7, 190, 2), (2, 84, 1)] \<and>
   map (\<lambda>e. (score_user e, totalScore e, tasksCompleted e))
     (topPerformers (calculateEmployeeOfTheMonth 0 1706745599000 example_db)) =
     [(7, 190, 2), (2, 84, 1)] \<and>
   map_option score_user
     (employeeOfTheMonth (calculateEmployeeOfTheMonth 0 1706745599000 example_db)) = Some 7"
proof -
  let ?r = "calculateEmployeeOfTheMonth 0 1706745599000 example_db"
  have t: "topPerformers ?r = take 5 (allRankings ?r)"
    and e: "employeeOfTheMonth ?r = (case allRankings ?r of [] \<Rightarrow> None | e # _ \<Rightarrow> Some e)"
    using rankings_filtered_and_sorted [of 0 1706745599000 example_db]
    unfolding Let_def by blast+
  obtain a b where ab: "allRankings ?r = [a, b]" "score_user a = 7"
    using example_db_rankings by auto
  show ?thesis
    using example_db_rankings by (simp add: t e ab)
qed

section \<open>Properties of the Performance record\<close>

text \<open>
  The rounding is sound: \<open>binary_exponent\<close> is the exponent it is meant to be, and
  \<open>to_double\<close> moves a number by at most half a unit in the last place, that is by a
  relative error of at most \<open>2 ^ - 53\<close>.
\<close>

lemma round_half_even_near: "\<bar>of_int (round_half_even m) - m\<bar> \<le> 1 / 2"
proof -
  have "of_int \<lfloor>m\<rfloor> \<le> m" "m < of_int \<lfloor>m\<rfloor> + 1"
    by linarith+
  then show ?thesis
    by (auto simp: round_half_even_def Let_def)
qed

lemma quotient_of_pos:
  assumes "0 < a" "quotient_of a = (p, q)"
  shows "0 < p \<and> 0 < q \<and> a = of_int p / of_int q"
proof -
  have q: "0 < q" using assms(2) by (rule quotient_of_denom_pos)
  have a: "a = of_int p / of_int q" using assms(2) by (rule quotient_of_div)
  have "0 < p"
    using assms(1) q unfolding a by (simp add: zero_less_divide_iff)
  then show ?thesis using q a by simp
qed

lemma binary_exponent_bounds:
  assumes "0 < a"
  shows "2 powi binary_exponent a \<le> a \<and> a < 2 powi (binary_exponent a + 1)"
proof -
  obtain p q where pq: "quotient_of a = (p, q)" by (cases "quotient_of a")
  from quotient_of_pos [OF assms pq] have p: "0 < p" and q: "0 < q"
    and a: "a = of_int p / of_int q" by simp_all
  let ?kp = "bitlen p" and ?kq = "bitlen q"
  have bp: "2 ^ nat (?kp - 1) \<le> p" "p < 2 ^ nat ?kp"
    using bitlen_bounds [OF p] by simp_all
  have bq: "2 ^ nat (?kq - 1) \<le> q" "q < 2 ^ nat ?kq"
    using bitlen_bounds [OF q] by simp_all
  have kp: "1 \<le> ?kp" and kq: "1 \<le> ?kq"
    using p q by (simp_all add: bitlen_def floorlog_def)
  have rp: "(2::rat) powi (?kp - 1) \<le> of_int p" "of_int p < (2::rat) powi ?kp"
  proof -
    have "(2::rat) powi (?kp - 1) = of_int (2 ^ nat (?kp - 1))"
      using kp by (simp add: power_int_def)
    then show "(2::rat) powi (?kp - 1) \<le> of_int p"
      using bp(1) by (simp only: of_int_le_iff)
    have "(2::rat) powi ?kp = of_int (2 ^ nat ?kp)"
      using kp by (simp add: power_int_def)
    then show "of_int p < (2::rat) powi ?kp"
      using bp(2) by (simp only: of_int_less_iff)
  qed
  have rq: "(2::rat) powi (?kq - 1) \<le> of_int q" "of_int q < (2::rat) powi ?kq"
  proof -
    have "(2::rat) powi (?kq - 1) = of_int (2 ^ nat (?kq - 1))"
      using kq by (simp add: power_int_def)
    then show "(2::rat) powi (?kq - 1) \<le> of_int q"
      using bq(1) by (simp only: of_int_le_iff)
    have "(2::rat) powi ?kq = of_int (2 ^ nat ?kq)"
      using kq by (simp add: power_int_def)
    then show "of_int q < (2::rat) powi ?kq"
      using bq(2) by (simp only: of_int_less_iff)
  qed
  have pos: "0 < (2::rat) powi k" for k
    by simp
  have up: "a < 2 powi (?kp - ?kq + 1)"
  proof -
    have "of_int p / of_int q < (2::rat) powi ?kp / 2 powi (?kq - 1)"
      using p rp(2) rq(1) pos [of "?kq - 1"] by (intro frac_less) simp_all
    also have "(2::rat) powi ?kp / 2 powi (?kq - 1) = 2 powi (?kp - (?kq - 1))"
      by (simp add: power_int_diff)
    also have "?kp - (?kq - 1) = ?kp - ?kq + 1"
      by simp
    finally show ?thesis
      unfolding a .
  qed
  have lo: "2 powi (?kp - ?kq - 1) \<le> a"
  proof -
    have "(2::rat) powi (?kp - 1) / 2 powi ?kq \<le> of_int p / of_int q"
      using p q rp(1) rq(2) by (intro frac_le) simp_all
    moreover have "(2::rat) powi (?kp - 1) / 2 powi ?kq = 2 powi (?kp - 1 - ?kq)"
      by (simp add: power_int_diff)
    moreover have "?kp - 1 - ?kq = ?kp - ?kq - 1"
      by simp
    ultimately show ?thesis
      unfolding a by simp
  qed
  show ?thesis
    using up lo by (auto simp: binary_exponent_def pq Let_def)
qed


lemma to_double_error: "\<bar>to_double x - x\<bar> \<le> \<bar>x\<bar> / 2 ^ 53"
proof (cases "x = 0")
  case True
  then show ?thesis by (simp add: to_double_def)
next
  case False
  let ?a = "\<bar>x\<bar>"
  let ?e = "binary_exponent ?a"
  let ?ulp = "(2::rat) powi (?e - 52)"
  let ?m = "?a / ?ulp"
  let ?r = "round_half_even ?m"
  have a: "0 < ?a" using False by simp
  have ulp: "0 < ?ulp" by simp
  have td: "to_double x = sgn x * of_int ?r * ?ulp"
    using False by (simp add: to_double_def Let_def)
  have x: "x = sgn x * ?a"
    by (simp add: abs_sgn mult.commute sgn_mult_abs)
  have "?m * ?ulp = ?a"
    by simp
  then have "(of_int ?r - ?m) * ?ulp = of_int ?r * ?ulp - ?a"
    by (simp add: left_diff_distrib)
  then have "to_double x - x = sgn x * ((of_int ?r - ?m) * ?ulp)"
    using x by (simp add: td right_diff_distrib mult.assoc)
  then have "\<bar>to_double x - x\<bar> = \<bar>of_int ?r - ?m\<bar> * ?ulp"
    using False ulp by (simp add: abs_mult abs_sgn_eq)
  also have "\<dots> \<le> 1 / 2 * ?ulp"
    using round_half_even_near [of ?m] ulp by (intro mult_right_mono) simp_all
  also have "1 / 2 * ?ulp = 2 powi ?e / 2 ^ 53"
    by (simp add: power_int_diff)
  also have "\<dots> \<le> ?a / 2 ^ 53"
    using binary_exponent_bounds [OF a] by (simp add: divide_right_mono)
  finally show ?thesis .
qed

text \<open>
  How far the doubles drift. Each operation adds a relative error of at most \<open>2 ^ -53\<close>;
  followed through the rates, the weights and the running sum, the score in doubles stays
  within \<open>10 ^ -12\<close> of the exact weighted sum, as long as each counter is a count
  within its total.
\<close>

lemma close_to_bound: "close_to d x' x \<Longrightarrow> \<bar>x\<bar> \<le> X \<Longrightarrow> \<bar>x'\<bar> \<le> X + d"
  unfolding close_to_def by linarith

lemma close_to_mono: "close_to d x' x \<Longrightarrow> d \<le> d' \<Longrightarrow> close_to d' x' x"
  unfolding close_to_def by linarith

lemma close_to_double:
  assumes "close_to d x' x" "\<bar>x'\<bar> \<le> B"
  shows "close_to (d + B / 2 ^ 53) (to_double x') x"
proof -
  have "\<bar>to_double x' - x'\<bar> \<le> \<bar>x'\<bar> / 2 ^ 53"
    by (rule to_double_error)
  also have "\<dots> \<le> B / 2 ^ 53"
    using assms(2) by (simp add: divide_right_mono)
  finally show ?thesis
    using assms(1) unfolding close_to_def by linarith
qed

lemma close_to_add:
  "close_to d1 x' x \<Longrightarrow> close_to d2 y' y \<Longrightarrow> close_to (d1 + d2) (x' + y') (x + y)"
  unfolding close_to_def by linarith

lemma close_to_mult:
  assumes "close_to d1 x' x" "close_to d2 y' y" "\<bar>x\<bar> \<le> X" "\<bar>y'\<bar> \<le> Y"
  shows "close_to (d1 * Y + X * d2) (x' * y') (x * y)"
proof -
  have d1: "0 \<le> d1" and d2: "0 \<le> d2" and X: "0 \<le> X" and Y: "0 \<le> Y"
    using assms unfolding close_to_def by linarith+
  have "x' * y' - x * y = (x' - x) * y' + x * (y' - y)"
    by (simp add: algebra_simps)
  then have "\<bar>x' * y' - x * y\<bar> \<le> \<bar>x' - x\<bar> * \<bar>y'\<bar> + \<bar>x\<bar> * \<bar>y' - y\<bar>"
    by (metis abs_mult abs_triangle_ineq)
  also have "\<dots> \<le> d1 * Y + X * d2"
    using assms d1 d2 X Y unfolding close_to_def
    by (intro add_mono mult_mono) simp_all
  finally show ?thesis
    unfolding close_to_def .
qed

text \<open>A rate: a quotient of counters with 0 <= a <= b, times 100.\<close>

lemma rate_close:
  assumes "close_to (1 / 2 ^ 53) x' x" "0 \<le> x" "x \<le> 1"
  shows "close_to (500 / 2 ^ 53) (double_mul (to_double x') 100) (x * 100) \<and>
         \<bar>double_mul (to_double x') 100\<bar> \<le> 101"
proof -
  have bx: "\<bar>x\<bar> \<le> 1" using assms by simp
  have bx': "\<bar>x'\<bar> \<le> 2"
    using close_to_bound [OF assms(1) bx] by simp
  have q: "close_to (3 / 2 ^ 53) (to_double x') x"
    using close_to_double [OF assms(1) bx'] by simp
  have bq: "\<bar>to_double x'\<bar> \<le> 2"
    using close_to_bound [OF q bx] by simp
  have c100: "close_to 0 100 (100::rat)" by (simp add: close_to_def)
  have m: "close_to (300 / 2 ^ 53) (to_double x' * 100) (x * 100)"
    using close_to_mult [OF q c100 bx, of 100] by simp
  have bm: "\<bar>to_double x' * 100\<bar> \<le> 200"
    using bq by (simp add: abs_mult)
  have r: "close_to (500 / 2 ^ 53) (to_double (to_double x' * 100)) (x * 100)"
    using close_to_double [OF m bm] by simp
  have "\<bar>x * 100\<bar> \<le> 100" using assms by simp
  from close_to_bound [OF r this] have "\<bar>to_double (to_double x' * 100)\<bar> \<le> 101"
    by simp
  then show ?thesis using r by (simp add: double_mul_def)
qed

lemma abs_times_100:
  fixes x :: rat
  assumes "0 \<le> x" "x \<le> 1"
  shows "\<bar>x * 100\<bar> \<le> 100"
  using assms by (simp add: abs_mult)

lemma counter_rate_close:
  assumes "0 \<le> a" "a \<le> b"
  shows "close_to (500 / 2 ^ 53)
           (if 0 < b then double_mul (double_div (of_int a) (of_int b)) 100 else dflt)
           (if 0 < b then of_int a / of_int b * 100 else dflt) \<and>
         (0 \<le> dflt \<and> dflt \<le> 100 \<longrightarrow>
          \<bar>if 0 < b then double_mul (double_div (of_int a) (of_int b)) 100 else dflt\<bar> \<le> 101 \<and>
          \<bar>if 0 < b then of_int a / of_int b * 100 else dflt\<bar> \<le> 100)"
proof (cases "0 < b")
  case False
  then show ?thesis by (simp add: close_to_def)
next
  case True
  let ?x = "of_int a / of_int b :: rat"
  have x0: "0 \<le> ?x" using assms True by simp
  have x1: "?x \<le> 1" using assms True by simp
  have c: "close_to (1 / 2 ^ 53) ?x ?x" by (simp add: close_to_def)
  have "\<bar>?x * 100\<bar> \<le> 100" using x0 x1 by (rule abs_times_100)
  then show ?thesis
    using rate_close [OF c x0 x1] True by (simp add: double_div_def)
qed

lemma on_time_rate_close:
  assumes "0 \<le> a" "a \<le> b"
  shows "close_to (500 / 2 ^ 53)
           (if 0 < b
            then double_mul (double_div (double_sub (of_int b) (of_int a)) (of_int b)) 100
            else 100)
           (if 0 < b then of_int (b - a) / of_int b * 100 else 100) \<and>
         \<bar>if 0 < b
          then double_mul (double_div (double_sub (of_int b) (of_int a)) (of_int b)) 100
          else 100\<bar> \<le> 101 \<and>
         \<bar>if 0 < b then of_int (b - a) / of_int b * 100 else (100::rat)\<bar> \<le> 100"
proof (cases "0 < b")
  case False
  then show ?thesis by (simp add: close_to_def)
next
  case True
  let ?d = "of_int b - of_int a :: rat"
  let ?x = "?d / of_int b"
  let ?x' = "to_double ?d / of_int b"
  have d0: "0 \<le> ?d" using assms by simp
  have x0: "0 \<le> ?x" using assms True by simp
  have x1: "?x \<le> 1" using assms True by simp
  have "\<bar>to_double ?d - ?d\<bar> \<le> \<bar>?d\<bar> / 2 ^ 53"
    by (rule to_double_error)
  then have "\<bar>to_double ?d - ?d\<bar> / of_int b \<le> (\<bar>?d\<bar> / 2 ^ 53) / of_int b"
    using True by (intro divide_right_mono) simp_all
  moreover have "\<bar>?x' - ?x\<bar> = \<bar>to_double ?d - ?d\<bar> / of_int b"
    using True by (simp add: diff_divide_distrib [symmetric] abs_divide del: of_int_diff)
  moreover have "(\<bar>?d\<bar> / 2 ^ 53) / of_int b = ?x / 2 ^ 53"
    using d0 by simp
  moreover have "?x / 2 ^ 53 \<le> 1 / 2 ^ 53"
    using x1 by (rule divide_right_mono) simp
  ultimately have c: "close_to (1 / 2 ^ 53) ?x' ?x"
    unfolding close_to_def by linarith
  have "\<bar>?x * 100\<bar> \<le> 100" using x0 x1 by (rule abs_times_100)
  then show ?thesis
    using rate_close [OF c x0 x1] True by (simp add: double_div_def double_sub_def)
qed

lemma weighted_term_close:
  assumes "close_to (500 / 2 ^ 53) r' r" "\<bar>r'\<bar> \<le> 101" "\<bar>r\<bar> \<le> 100" "0 \<le> c" "c \<le> 1 / 2"
  shows "close_to (701 / 2 ^ 53) (double_mul r' (to_double c)) (r * c) \<and>
         \<bar>double_mul r' (to_double c)\<bar> \<le> 51 \<and> \<bar>r * c\<bar> \<le> 50"
proof -
  have cc: "close_to 0 c c" by (simp add: close_to_def)
  have bc: "\<bar>c\<bar> \<le> 1 / 2" using assms by simp
  have w: "close_to (1 / 2 ^ 53) (to_double c) c"
    using close_to_double [OF cc bc] by (rule close_to_mono) simp
  have bw: "\<bar>to_double c\<bar> \<le> 1"
    using close_to_bound [OF w bc] by simp
  have m: "close_to (600 / 2 ^ 53) (r' * to_double c) (r * c)"
    using close_to_mult [OF assms(1) w assms(3) bw] by simp
  have "\<bar>r' * to_double c\<bar> \<le> 101 * 1"
    unfolding abs_mult using assms(2) bw by (intro mult_mono) simp_all
  then have bm: "\<bar>r' * to_double c\<bar> \<le> 101" by simp
  have t: "close_to (701 / 2 ^ 53) (to_double (r' * to_double c)) (r * c)"
    using close_to_double [OF m bm] by simp
  have "\<bar>r * c\<bar> \<le> 100 * (1 / 2)"
    unfolding abs_mult using assms(3) bc by (intro mult_mono) simp_all
  then have e: "\<bar>r * c\<bar> \<le> 50" by simp
  from close_to_bound [OF t e] have "\<bar>to_double (r' * to_double c)\<bar> \<le> 51"
    by simp
  then show ?thesis using t e by (simp add: double_mul_def)
qed

lemma abs_le_diff_plus:
  fixes a b :: rat
  shows "\<bar>a\<bar> \<le> \<bar>a - b\<bar> + \<bar>b\<bar>"
  using abs_triangle_ineq [of "a - b" b] by simp

lemma running_sum_close:
  assumes "close_to d s' s" "close_to (701 / 2 ^ 53) t' t" "\<bar>s'\<bar> \<le> S" "\<bar>t'\<bar> \<le> 51"
  shows "close_to (d + (752 + S) / 2 ^ 53) (double_add s' t') (s + t) \<and>
         \<bar>double_add s' t'\<bar> \<le> (S + 51) * 2"
proof -
  have b: "\<bar>s' + t'\<bar> \<le> S + 51" using assms(3,4) by linarith
  have a: "close_to (d + 701 / 2 ^ 53) (s' + t') (s + t)"
    by (rule close_to_add [OF assms(1,2)])
  have e: "d + 701 / 2 ^ 53 + (S + 51) / 2 ^ 53 = d + (752 + S) / 2 ^ 53"
    by (simp add: add_divide_distrib)
  have c: "close_to (d + (752 + S) / 2 ^ 53) (to_double (s' + t')) (s + t)"
    using close_to_double [OF a b] unfolding e .
  have S: "0 \<le> S + 51"
    using b by linarith
  have "\<bar>to_double (s' + t') - (s' + t')\<bar> \<le> \<bar>s' + t'\<bar> / 2 ^ 53"
    by (rule to_double_error)
  also have "\<bar>s' + t'\<bar> / 2 ^ 53 \<le> \<bar>s' + t'\<bar>"
    by (simp add: divide_le_eq)
  also note b
  finally have d: "\<bar>to_double (s' + t') - (s' + t')\<bar> \<le> S + 51" .
  have "\<bar>to_double (s' + t')\<bar> \<le> \<bar>to_double (s' + t') - (s' + t')\<bar> + \<bar>s' + t'\<bar>"
    by (rule abs_le_diff_plus)
  also have "\<dots> \<le> (S + 51) + (S + 51)"
    using d b by (rule add_mono)
  finally have "\<bar>to_double (s' + t')\<bar> \<le> (S + 51) + (S + 51)" .
  then have "\<bar>to_double (s' + t')\<bar> \<le> (S + 51) * 2"
    by simp
  then show ?thesis using c by (simp add: double_add_def)
qed

text \<open>
  The score in doubles against the exact weighted sum of the rates: they differ by at most
  \<open>10 ^ -12\<close>.
\<close>

lemma weighted_score_near_exact:
  assumes "0 \<le> perf_tasksCompleted p" "perf_tasksCompleted p \<le> tasksAssigned p"
    "0 \<le> tasksOverdue p" "tasksOverdue p \<le> tasksAssigned p"
    "0 \<le> attendanceDays p" "attendanceDays p \<le> totalWorkingDays p"
    "0 \<le> salesConversions p" "salesConversions p \<le> salesCalls p"
  shows "\<bar>weighted_score p -
     ((if 0 < tasksAssigned p
       then of_int (perf_tasksCompleted p) / of_int (tasksAssigned p) * 100 else 0) * (3 / 10) +
      (if 0 < totalWorkingDays p
       then of_int (attendanceDays p) / of_int (totalWorkingDays p) * 100 else 0) * (1 / 4) +
      (if 0 < tasksAssigned p
       then of_int (tasksAssigned p - tasksOverdue p) / of_int (tasksAssigned p) * 100
       else 100) * (1 / 5) +
      (if 0 < salesCalls p
       then of_int (salesConversions p) / of_int (salesCalls p) * 100 else 0) * (1 / 4))\<bar>
     \<le> 1 / 10 ^ 12"
proof -
  let ?R1 = "if 0 < tasksAssigned p
       then of_int (perf_tasksCompleted p) / of_int (tasksAssigned p) * 100 else (0::rat)"
  let ?R2 = "if 0 < totalWorkingDays p
       then of_int (attendanceDays p) / of_int (totalWorkingDays p) * 100 else (0::rat)"
  let ?R3 = "if 0 < tasksAssigned p
       then of_int (tasksAssigned p - tasksOverdue p) / of_int (tasksAssigned p) * 100
       else (100::rat)"
  let ?R4 = "if 0 < salesCalls p
       then of_int (salesConversions p) / of_int (salesCalls p) * 100 else (0::rat)"
  let ?r3 = "if 0 < tasksAssigned p
       then double_mul
              (double_div (double_sub (of_int (tasksAssigned p)) (of_int (tasksOverdue p)))
                 (of_int (tasksAssigned p)))
              100
       else 100"
  have r1: "close_to (500 / 2 ^ 53) (taskCompletionRate p) ?R1"
      "\<bar>taskCompletionRate p\<bar> \<le> 101" "\<bar>?R1\<bar> \<le> 100"
    using counter_rate_close [OF assms(1,2), of 0] unfolding taskCompletionRate_def by simp_all
  have r2: "close_to (500 / 2 ^ 53) (attendanceRate p) ?R2"
      "\<bar>attendanceRate p\<bar> \<le> 101" "\<bar>?R2\<bar> \<le> 100"
    using counter_rate_close [OF assms(5,6), of 0] unfolding attendanceRate_def by simp_all
  have r4: "close_to (500 / 2 ^ 53) (salesConversionRate p) ?R4"
      "\<bar>salesConversionRate p\<bar> \<le> 101" "\<bar>?R4\<bar> \<le> 100"
    using counter_rate_close [OF assms(7,8), of 0] unfolding salesConversionRate_def by simp_all
  have r3: "close_to (500 / 2 ^ 53) ?r3 ?R3" "\<bar>?r3\<bar> \<le> 101" "\<bar>?R3\<bar> \<le> 100"
    using on_time_rate_close [OF assms(3,4)] by simp_all
  note t1 = weighted_term_close [OF r1, of "0.3"]
  note t2 = weighted_term_close [OF r2, of "0.25"]
  note t3 = weighted_term_close [OF r3, of "0.2"]
  note t4 = weighted_term_close [OF r4, of "0.25"]
  have z: "close_to 0 0 (0::rat)" "\<bar>0::rat\<bar> \<le> 0"
    by (simp_all add: close_to_def)
  let ?s1 = "double_add 0 (double_mul (taskCompletionRate p) (to_double 0.3))"
  let ?s2 = "double_add ?s1 (double_mul (attendanceRate p) (to_double 0.25))"
  let ?s3 = "double_add ?s2 (double_mul ?r3 (to_double 0.2))"
  let ?s4 = "double_add ?s3 (double_mul (salesConversionRate p) (to_double 0.25))"
  have s1: "close_to (752 / 2 ^ 53) ?s1 (0 + ?R1 * 0.3)" "\<bar>?s1\<bar> \<le> 102"
    using running_sum_close [OF z(1) _ z(2), of "double_mul (taskCompletionRate p) (to_double 0.3)"
        "?R1 * 0.3"] t1
    by simp_all
  have s2: "close_to (1606 / 2 ^ 53) ?s2 (0 + ?R1 * 0.3 + ?R2 * 0.25)" "\<bar>?s2\<bar> \<le> 306"
    using running_sum_close [OF s1(1) _ s1(2),
        of "double_mul (attendanceRate p) (to_double 0.25)" "?R2 * 0.25"] t2
    by simp_all
  have s3: "close_to (2664 / 2 ^ 53) ?s3 (0 + ?R1 * 0.3 + ?R2 * 0.25 + ?R3 * 0.2)"
      "\<bar>?s3\<bar> \<le> 714"
    using running_sum_close [OF s2(1) _ s2(2), of "double_mul ?r3 (to_double 0.2)" "?R3 * 0.2"] t3
    by simp_all
  have s4: "close_to (4130 / 2 ^ 53) ?s4 (0 + ?R1 * 0.3 + ?R2 * 0.25 + ?R3 * 0.2 + ?R4 * 0.25)"
    using running_sum_close [OF s3(1) _ s3(2),
        of "double_mul (salesConversionRate p) (to_double 0.25)" "?R4 * 0.25"] t4
    by simp_all
  have w: "weighted_score p = (if 0 < salesCalls p then ?s4 else ?s3)"
    by (simp add: weighted_score_def Let_def)
  have e: "(4130 / 2 ^ 53 :: rat) \<le> 1 / 10 ^ 12" "(2664 / 2 ^ 53 :: rat) \<le> 1 / 10 ^ 12"
    by simp_all
  show ?thesis
  proof (cases "0 < salesCalls p")
    case True
    then show ?thesis
      using close_to_mono [OF s4 e(1)] unfolding w close_to_def by simp
  next
    case False
    then show ?thesis
      using close_to_mono [OF s3(1) e(2)] unfolding w close_to_def by simp
  qed
qed

text \<open>
  So the stored score is the rounding of the exact sum, except when the exact sum lies within
  \<open>10 ^ -12\<close> of a half.
\<close>

lemma overallScore_near_exact:
  assumes "0 \<le> perf_tasksCompleted p" "perf_tasksCompleted p \<le> tasksAssigned p"
    "0 \<le> tasksOverdue p" "tasksOverdue p \<le> tasksAssigned p"
    "0 \<le> attendanceDays p" "attendanceDays p \<le> totalWorkingDays p"
    "0 \<le> salesConversions p" "salesConversions p \<le> salesCalls p"
    and "(exact::rat) =
      (if 0 < tasksAssigned p
       then of_int (perf_tasksCompleted p) / of_int (tasksAssigned p) * 100 else 0) * (3 / 10) +
      (if 0 < totalWorkingDays p
       then of_int (attendanceDays p) / of_int (totalWorkingDays p) * 100 else 0) * (1 / 4) +
      (if 0 < tasksAssigned p
       then of_int (tasksAssigned p - tasksOverdue p) / of_int (tasksAssigned p) * 100
       else 100) * (1 / 5) +
      (if 0 < salesCalls p
       then of_int (salesConversions p) / of_int (salesCalls p) * 100 else 0) * (1 / 4)"
  shows "\<lfloor>exact + 1 / 2 - 1 / 10 ^ 12\<rfloor> \<le> overallScore (calculateOverallScore p) \<and>
         overallScore (calculateOverallScore p) \<le> \<lfloor>exact + 1 / 2 + 1 / 10 ^ 12\<rfloor>"
proof -
  have "\<bar>weighted_score p - exact\<bar> \<le> 1 / 10 ^ 12"
    unfolding assms(9) by (rule weighted_score_near_exact [OF assms(1-8)])
  then have lo: "exact + 1 / 2 - 1 / 10 ^ 12 \<le> weighted_score p + 1 / 2"
    and hi: "weighted_score p + 1 / 2 \<le> exact + 1 / 2 + 1 / 10 ^ 12"
    by linarith+
  have "\<lfloor>exact + 1 / 2 - 1 / 10 ^ 12\<rfloor> \<le> \<lfloor>weighted_score p + 1 / 2\<rfloor>"
    using lo by (rule floor_mono)
  moreover have "\<lfloor>weighted_score p + 1 / 2\<rfloor> \<le> \<lfloor>exact + 1 / 2 + 1 / 10 ^ 12\<rfloor>"
    using hi by (rule floor_mono)
  moreover have "overallScore (calculateOverallScore p) = \<lfloor>weighted_score p + 1 / 2\<rfloor>"
    by (simp add: calculateOverallScore_def round_and_grade_def Let_def js_round_def)
  ultimately show ?thesis
    by simp
qed

text \<open>The decimal literals of the method, as doubles.\<close>

lemma weight_literals:
  "to_double 0.3 = 5404319552844595 / 2 ^ 54"
  "to_double 0.25 = 1 / 4"
  "to_double 0.2 = 3602879701896397 / 2 ^ 54"
  by code_simp+

lemma weighted_score_closed:
  "weighted_score p =
     (let base =
        double_add
          (double_add
             (double_add 0 (double_mul (taskCompletionRate p) (to_double 0.3)))
             (double_mul (attendanceRate p) (to_double 0.25)))
          (double_mul
             (if 0 < tasksAssigned p
              then double_mul
                     (double_div
                        (double_sub (of_int (tasksAssigned p)) (of_int (tasksOverdue p)))
                        (of_int (tasksAssigned p)))
                     100
              else 100)
             (to_double 0.2))
      in if 0 < salesCalls p
         then double_add base (double_mul (salesConversionRate p) (to_double 0.25))
         else base)"
  by (simp add: weighted_score_def Let_def)

text \<open>
  Claim C7. The stored \<^verbatim>\<open>overallScore\<close> is \<^verbatim>\<open>Math.round\<close> of the sum, taken in the method's
  order and in the arithmetic of Numbers, of the task completion rate times 0.3, the
  attendance rate times 0.25 and the on-time rate times 0.2, to which the sales
  conversion rate times 0.25 is added only when \<^verbatim>\<open>salesCalls\<close> is positive; the sum is
  not divided by the weights applied. The three rates of the virtuals are 0 on a
  denominator that is not positive, the on-time rate is 100 when \<^verbatim>\<open>tasksAssigned\<close> is
  not positive. Saving a modified record computes exactly this.
\<close>

theorem overallScore_weighted_not_renormalised:
  "overallScore (calculateOverallScore p) =
     js_round
       (let base =
          double_add
            (double_add
               (double_add 0 (double_mul (taskCompletionRate p) (to_double 0.3)))
               (double_mul (attendanceRate p) (to_double 0.25)))
            (double_mul
               (if 0 < tasksAssigned p
                then double_mul
                       (double_div
                          (double_sub (of_int (tasksAssigned p)) (of_int (tasksOverdue p)))
                          (of_int (tasksAssigned p)))
                       100
                else 100)
               (to_double 0.2))
        in if 0 < salesCalls p
           then double_add base (double_mul (salesConversionRate p) (to_double 0.25))
           else base) \<and>
   taskCompletionRate p =
     (if 0 < tasksAssigned p
      then double_mul (double_div (of_int (perf_tasksCompleted p)) (of_int (tasksAssigned p))) 100
      else 0) \<and>
   attendanceRate p =
     (if 0 < totalWorkingDays p
      then double_mul (double_div (of_int (attendanceDays p)) (of_int (totalWorkingDays p))) 100
      else 0) \<and>
   salesConversionRate p =
     (if 0 < salesCalls p
      then double_mul (double_div (of_int (salesConversions p)) (of_int (salesCalls p))) 100
      else 0) \<and>
   performance_pre_save True p = calculateOverallScore p"
proof -
  have "overallScore (calculateOverallScore p) = js_round (weighted_score p)"
    by (simp add: calculateOverallScore_def round_and_grade_def Let_def)
  then show ?thesis
    by (simp only: weighted_score_closed taskCompletionRate_def attendanceRate_def
          salesConversionRate_def performance_pre_save_def if_True simp_thms)
qed

theorem overallScore_weighted_not_renormalised_witness:
  "overallScore (calculateOverallScore perfect_without_sales) = 75 \<and>
   overallScore (calculateOverallScore blank_performance) = 20 \<and>
   taskCompletionRate blank_performance = 0"
proof -
  let ?rhs = "\<lambda>p. js_round
       (let base =
          double_add
            (double_add
               (double_add 0 (double_mul (taskCompletionRate p) (to_double 0.3)))
               (double_mul (attendanceRate p) (to_double 0.25)))
            (double_mul
               (if 0 < tasksAssigned p
                then double_mul
                       (double_div
                          (double_sub (of_int (tasksAssigned p)) (of_int (tasksOverdue p)))
                          (of_int (tasksAssigned p)))
                       100
                else 100)
               (to_double 0.2))
        in if 0 < salesCalls p
           then double_add base (double_mul (salesConversionRate p) (to_double 0.25))
           else base)"
  have e1: "?rhs perfect_without_sales = 75"
    by code_simp
  have e2: "?rhs blank_performance = 20"
    by code_simp
  have a: "overallScore (calculateOverallScore perfect_without_sales) = 75"
    using overallScore_weighted_not_renormalised [of perfect_without_sales] e1 by simp
  have b: "overallScore (calculateOverallScore blank_performance) = 20"
    using overallScore_weighted_not_renormalised [of blank_performance] e2 by simp
  have c: "taskCompletionRate blank_performance = 0"
    using overallScore_weighted_not_renormalised [of blank_performance]
    by (simp add: blank_performance_def)
  show ?thesis
    using a b c by simp
qed

text \<open>
  The arithmetic of doubles shows in the stored score. For two of three tasks
  completed, one overdue, 22 days of 25 attended and one conversion in six calls the
  exact weighted sum is 59.5, which would round to 60; the method's doubles add up to
  a little less, and the record gets 59 and grade F.
\<close>

lemma doubles_show_in_the_score:
  "weighted_score rounding_record = 8373880557142015 / 2 ^ 47 \<and>
   weighted_score rounding_record < 119 / 2 \<and>
   overallScore (calculateOverallScore rounding_record) = 59 \<and>
   grade (calculateOverallScore rounding_record) = ''F'' \<and>
   (2 / 3 * 100) * (3 / 10) + (22 / 25 * 100) * (1 / 4) + ((3 - 1) / 3 * 100) * (1 / 5) +
     (1 / 6 * 100) * (1 / 4) = (119 / 2 :: rat)"
proof -
  have w: "weighted_score rounding_record = 8373880557142015 / 2 ^ 47"
    by code_simp
  have f: "\<lfloor>(8373880557142015 / 2 ^ 47 :: rat) + 1 / 2\<rfloor> = (59::int)"
    by (rule floor_unique) simp_all
  have "overallScore (calculateOverallScore rounding_record) =
      \<lfloor>weighted_score rounding_record + 1 / 2\<rfloor>"
    by (simp add: calculateOverallScore_def round_and_grade_def Let_def js_round_def)
  then have s: "overallScore (calculateOverallScore rounding_record) = 59"
    by (simp only: w f)
  have "grade (calculateOverallScore rounding_record) =
      (let s = overallScore (calculateOverallScore rounding_record)
       in if 95 \<le> s then ''A+'' else if 90 \<le> s then ''A'' else if 85 \<le> s then ''B+''
          else if 80 \<le> s then ''B'' else if 75 \<le> s then ''C+'' else if 70 \<le> s then ''C''
          else if 60 \<le> s then ''D'' else ''F'')"
    by (simp add: calculateOverallScore_def round_and_grade_def Let_def)
  then have g: "grade (calculateOverallScore rounding_record) = ''F''"
    by (simp add: s)
  have lt: "(8373880557142015 / 2 ^ 47 :: rat) < 119 / 2"
    by simp
  have ex: "(2 / 3 * 100) * (3 / 10) + (22 / 25 * 100) * (1 / 4) + ((3 - 1) / 3 * 100) * (1 / 5) +
     (1 / 6 * 100) * (1 / 4) = (119 / 2 :: rat)"
    by simp
  show ?thesis
    using s g lt ex unfolding w by blast
qed

text \<open>
  Claim C8. The grade is read off the rounded \<^verbatim>\<open>overallScore\<close>: at least 95 gives A+,
  90 A, 85 B+, 80 B, 75 C+, 70 C, 60 D, anything lower F; and the stored score is the
  method's weighted score rounded by \<^verbatim>\<open>Math.round\<close>, whatever that score is. So a raw
  score of 94.999 is stored as 95 and graded A+, and 94 is graded A.
\<close>

theorem grade_from_rounded_score:
  "grade (calculateOverallScore p) =
     (let s = overallScore (calculateOverallScore p)
      in if 95 \<le> s then ''A+''
         else if 90 \<le> s then ''A''
         else if 85 \<le> s then ''B+''
         else if 80 \<le> s then ''B''
         else if 75 \<le> s then ''C+''
         else if 70 \<le> s then ''C''
         else if 60 \<le> s then ''D''
         else ''F'') \<and>
   overallScore (calculateOverallScore p) = \<lfloor>weighted_score p + 1 / 2\<rfloor> \<and>
   calculateOverallScore p = round_and_grade (weighted_score p) p \<and>
   overallScore (round_and_grade score p) = \<lfloor>score + 1 / 2\<rfloor> \<and>
   grade (round_and_grade score p) =
     (let s = \<lfloor>score + 1 / 2\<rfloor>
      in if 95 \<le> s then ''A+''
         else if 90 \<le> s then ''A''
         else if 85 \<le> s then ''B+''
         else if 80 \<le> s then ''B''
         else if 75 \<le> s then ''C+''
         else if 70 \<le> s then ''C''
         else if 60 \<le> s then ''D''
         else ''F'')"
  by (simp add: calculateOverallScore_def round_and_grade_def Let_def js_round_def)

theorem grade_from_rounded_score_witness:
  "overallScore (round_and_grade 94.999 blank_performance) = 95 \<and>
   grade (round_and_grade 94.999 blank_performance) = ''A+'' \<and>
   overallScore (round_and_grade 94 blank_performance) = 94 \<and>
   grade (round_and_grade 94 blank_performance) = ''A'' \<and>
   \<bar>weighted_score nearly_95 - 94.999\<bar> < 1 / 10 ^ 13 \<and>
   overallScore (calculateOverallScore nearly_95) = 95 \<and>
   grade (calculateOverallScore nearly_95) = ''A+'' \<and>
   weighted_score exactly_94 = 94 \<and>
   overallScore (calculateOverallScore exactly_94) = 94 \<and>
   grade (calculateOverallScore exactly_94) = ''A''"
proof -
  have w1: "weighted_score nearly_95 = 3342480164066951 / 2 ^ 45"
    by code_simp
  have w2: "weighted_score exactly_94 = 94"
    by code_simp
  have c1: "\<bar>(3342480164066951 / 2 ^ 45 :: rat) - 94.999\<bar> < 1 / 10 ^ 13"
    by simp
  have f0: "\<lfloor>(94.999::rat) + 1 / 2\<rfloor> = (95::int)"
    by (rule floor_unique) simp_all
  have f1: "\<lfloor>(3342480164066951 / 2 ^ 45 :: rat) + 1 / 2\<rfloor> = (95::int)"
    by (rule floor_unique) simp_all
  have f2: "\<lfloor>(94::rat) + 1 / 2\<rfloor> = (94::int)"
    by (rule floor_unique) simp_all
  note chain = grade_from_rounded_score [THEN conjunct1]
  note stored = grade_from_rounded_score [THEN conjunct2, THEN conjunct1]
  note raw_stored =
    grade_from_rounded_score [THEN conjunct2, THEN conjunct2, THEN conjunct2, THEN conjunct1]
  note raw_chain =
    grade_from_rounded_score [THEN conjunct2, THEN conjunct2, THEN conjunct2, THEN conjunct2]
  have r1: "overallScore (round_and_grade 94.999 blank_performance) = 95"
    using raw_stored [of "94.999" blank_performance] by (simp only: f0)
  have r2: "overallScore (round_and_grade 94 blank_performance) = 94"
    using raw_stored [of 94 blank_performance] by (simp only: f2)
  have g1: "grade (round_and_grade 94.999 blank_performance) = ''A+''"
    using raw_chain [of "94.999" blank_performance] unfolding f0 by simp
  have g2: "grade (round_and_grade 94 blank_performance) = ''A''"
    using raw_chain [of 94 blank_performance] unfolding f2 by simp
  have s1: "overallScore (calculateOverallScore nearly_95) = 95"
    using stored [of nearly_95] by (simp only: w1 f1)
  have s2: "overallScore (calculateOverallScore exactly_94) = 94"
    using stored [of exactly_94] by (simp only: w2 f2)
  have h1: "grade (calculateOverallScore nearly_95) = ''A+''"
    using chain [of nearly_95] unfolding s1 by simp
  have h2: "grade (calculateOverallScore exactly_94) = ''A''"
    using chain [of exactly_94] unfolding s2 by simp
  show ?thesis
    using c1 r1 r2 g1 g2 s1 s2 h1 h2 w2 unfolding w1 by blast
qed

text \<open>The \<^verbatim>\<open>reduce\<close> returns the first record among those of the largest score.\<close>

lemma reduce_keeps_first_best:
  "\<exists>i<length (p # ps).
     foldl (\<lambda>best current. if overallScore best < overallScore current then current else best) p ps =
       (p # ps) ! i \<and>
     (\<forall>j<length (p # ps). overallScore ((p # ps) ! j) \<le> overallScore ((p # ps) ! i)) \<and>
     (\<forall>j<i. overallScore ((p # ps) ! j) < overallScore ((p # ps) ! i))"
proof (induction ps rule: rev_induct)
  case Nil
  then show ?case by simp
next
  case (snoc x xs)
  let ?f = "\<lambda>best current. if overallScore best < overallScore current then current else best"
  from snoc obtain i where i: "i < length (p # xs)" "foldl ?f p xs = (p # xs) ! i"
    and mx: "\<forall>j<length (p # xs). overallScore ((p # xs) ! j) \<le> overallScore ((p # xs) ! i)"
    and fst: "\<forall>j<i. overallScore ((p # xs) ! j) < overallScore ((p # xs) ! i)"
    by blast
  have nth_old: "(p # xs @ [x]) ! j = (p # xs) ! j" if "j < length (p # xs)" for j
    using that by (metis append_Cons nth_append)
  have nth_new: "(p # xs @ [x]) ! length (p # xs) = x"
    by (metis append_Cons nth_append_length)
  show ?case
  proof (cases "overallScore ((p # xs) ! i) < overallScore x")
    case True
    have r: "foldl ?f p (xs @ [x]) = (p # xs @ [x]) ! length (p # xs)"
      using True i(2) nth_new by simp
    have a: "\<forall>j<length (p # xs @ [x]).
        overallScore ((p # xs @ [x]) ! j) \<le> overallScore ((p # xs @ [x]) ! length (p # xs))"
    proof (intro allI impI)
      fix j assume "j < length (p # xs @ [x])"
      then consider "j < length (p # xs)" | "j = length (p # xs)" by fastforce
      then show "overallScore ((p # xs @ [x]) ! j) \<le> overallScore ((p # xs @ [x]) ! length (p # xs))"
      proof cases
        case 1
        then show ?thesis using mx True nth_old [OF 1] nth_new by fastforce
      next
        case 2
        then show ?thesis by simp
      qed
    qed
    have b: "\<forall>j<length (p # xs).
        overallScore ((p # xs @ [x]) ! j) < overallScore ((p # xs @ [x]) ! length (p # xs))"
    proof (intro allI impI)
      fix j assume j: "j < length (p # xs)"
      then show "overallScore ((p # xs @ [x]) ! j) < overallScore ((p # xs @ [x]) ! length (p # xs))"
        using mx True nth_old [OF j] nth_new by fastforce
    qed
    show ?thesis
      using r a b by (intro exI [of _ "length (p # xs)"]) simp
  next
    case False
    have r: "foldl ?f p (xs @ [x]) = (p # xs @ [x]) ! i"
      using False i nth_old [OF i(1)] by simp
    have a: "\<forall>j<length (p # xs @ [x]).
        overallScore ((p # xs @ [x]) ! j) \<le> overallScore ((p # xs @ [x]) ! i)"
    proof (intro allI impI)
      fix j assume "j < length (p # xs @ [x])"
      then consider "j < length (p # xs)" | "j = length (p # xs)" by fastforce
      then show "overallScore ((p # xs @ [x]) ! j) \<le> overallScore ((p # xs @ [x]) ! i)"
      proof cases
        case 1
        then show ?thesis using mx nth_old [OF 1] nth_old [OF i(1)] by simp
      next
        case 2
        then show ?thesis using False nth_new nth_old [OF i(1)] by simp
      qed
    qed
    have b: "\<forall>j<i. overallScore ((p # xs @ [x]) ! j) < overallScore ((p # xs @ [x]) ! i)"
    proof (intro allI impI)
      fix j assume j: "j < i"
      then have "j < length (p # xs)" using i(1) by simp
      then show "overallScore ((p # xs @ [x]) ! j) < overallScore ((p # xs @ [x]) ! i)"
        using fst j nth_old nth_old [OF i(1)] by simp
    qed
    show ?thesis
      using r a b i(1) by (intro exI [of _ i]) simp
  qed
qed

text \<open>
  Claim C10. Among the active monthly Performance records whose window lies in the
  month, taken in the order of the fetch, \<^verbatim>\<open>Performance.calculateEmployeeOfTheMonth\<close>
  returns \<^verbatim>\<open>null\<close> when there is none, and otherwise a record of maximal stored
  \<^verbatim>\<open>overallScore\<close>, the earliest of these. The endpoint answers with that record (or
  not-found), and its answer does not depend on the tasks of the store: the
  task-based ranking plays no part in it.
\<close>

theorem performance_employee_of_the_month:
  "(let eligible = filter (\<lambda>p. period p = monthly \<and> mkDate year (month - 1) 1 \<le> perf_startDate p \<and>
                              perf_endDate p \<le> mkDate year month 0 \<and> perf_isActive p) db;
        result = Performance_calculateEmployeeOfTheMonth mkDate month year db
    in (eligible = [] \<longrightarrow> result = None) \<and>
       (eligible \<noteq> [] \<longrightarrow>
          (\<exists>i<length eligible.
             result = Some (eligible ! i) \<and>
             (\<forall>j<length eligible. overallScore (eligible ! j) \<le> overallScore (eligible ! i)) \<and>
             (\<forall>j<i. overallScore (eligible ! j) < overallScore (eligible ! i))))) \<and>
   (m \<noteq> 0 \<and> y \<noteq> 0 \<longrightarrow>
      PerformanceController_calculateEmployeeOfTheMonth mkDate (Some m) (Some y) st =
        (case Performance_calculateEmployeeOfTheMonth mkDate m y (performances st) of
           None \<Rightarrow> NOT_FOUND | Some winner \<Rightarrow> OK winner)) \<and>
   PerformanceController_calculateEmployeeOfTheMonth mkDate mo yo (st\<lparr>tasks := ts\<rparr>) =
     PerformanceController_calculateEmployeeOfTheMonth mkDate mo yo st"
proof -
  let ?el = "filter (\<lambda>p. period p = monthly \<and> mkDate year (month - 1) 1 \<le> perf_startDate p \<and>
                          perf_endDate p \<le> mkDate year month 0 \<and> perf_isActive p) db"
  let ?res = "Performance_calculateEmployeeOfTheMonth mkDate month year db"
  have a: "?el = [] \<longrightarrow> ?res = None"
    by (simp add: Performance_calculateEmployeeOfTheMonth_def find_performances_def)
  have b: "?el \<noteq> [] \<longrightarrow>
      (\<exists>i<length ?el. ?res = Some (?el ! i) \<and>
         (\<forall>j<length ?el. overallScore (?el ! j) \<le> overallScore (?el ! i)) \<and>
         (\<forall>j<i. overallScore (?el ! j) < overallScore (?el ! i)))"
  proof
    assume "?el \<noteq> []"
    then obtain p ps where el: "?el = p # ps" by (cases ?el) auto
    then have "?res = Some (foldl (\<lambda>best current.
        if overallScore best < overallScore current then current else best) p ps)"
      by (simp add: Performance_calculateEmployeeOfTheMonth_def find_performances_def)
    then show "\<exists>i<length ?el. ?res = Some (?el ! i) \<and>
         (\<forall>j<length ?el. overallScore (?el ! j) \<le> overallScore (?el ! i)) \<and>
         (\<forall>j<i. overallScore (?el ! j) < overallScore (?el ! i))"
      using reduce_keeps_first_best [of p ps] unfolding el by auto
  qed
  have c: "m \<noteq> 0 \<and> y \<noteq> 0 \<longrightarrow>
      PerformanceController_calculateEmployeeOfTheMonth mkDate (Some m) (Some y) st =
        (case Performance_calculateEmployeeOfTheMonth mkDate m y (performances st) of
           None \<Rightarrow> NOT_FOUND | Some winner \<Rightarrow> OK winner)"
    by (simp add: PerformanceController_calculateEmployeeOfTheMonth_def)
  have d: "PerformanceController_calculateEmployeeOfTheMonth mkDate mo yo (st\<lparr>tasks := ts\<rparr>) =
     PerformanceController_calculateEmployeeOfTheMonth mkDate mo yo st"
    by (simp add: PerformanceController_calculateEmployeeOfTheMonth_def split: option.splits)
  show ?thesis
    unfolding Let_def using a b c d by blast
qed

theorem performance_employee_of_the_month_witness:
  "Performance_calculateEmployeeOfTheMonth january_2024 1 2024 [] = None \<and>
   Performance_calculateEmployeeOfTheMonth january_2024 1 2024 example_performances =
     Some (blank_performance\<lparr>employee := 5, overallScore := 90\<rparr>) \<and>
   PerformanceController_calculateEmployeeOfTheMonth january_2024 (Some 1) (Some 2024)
     \<lparr>tasks = example_db, performances = example_performances\<rparr> =
     OK (blank_performance\<lparr>employee := 5, overallScore := 90\<rparr>)"
proof -
  let ?el = "filter (\<lambda>p. period p = monthly \<and>
      january_2024 2024 (1 - 1) 1 \<le> perf_startDate p \<and>
      perf_endDate p \<le> january_2024 2024 1 0 \<and> perf_isActive p) example_performances"
  have none: "Performance_calculateEmployeeOfTheMonth january_2024 1 2024 [] = None"
    using performance_employee_of_the_month [of january_2024 2024 1 "[]"]
    by (simp add: Let_def)
  have el: "?el = [blank_performance\<lparr>employee := 3, overallScore := 80\<rparr>,
                   blank_performance\<lparr>employee := 5, overallScore := 90\<rparr>,
                   blank_performance\<lparr>employee := 7, overallScore := 90\<rparr>]"
    by (simp add: example_performances_def blank_performance_def january_2024_def)
  obtain i where i: "i < length ?el"
    and r: "Performance_calculateEmployeeOfTheMonth january_2024 1 2024 example_performances =
        Some (?el ! i)"
    and mx: "\<forall>j<length ?el. overallScore (?el ! j) \<le> overallScore (?el ! i)"
    and fs: "\<forall>j<i. overallScore (?el ! j) < overallScore (?el ! i)"
    using performance_employee_of_the_month [of january_2024 2024 1 example_performances]
    unfolding Let_def el by blast
  have "i = 0 \<or> i = 1 \<or> i = 2"
    using i unfolding el by auto
  moreover have "i \<noteq> 0"
  proof
    assume "i = 0"
    with mx [rule_format, of 1] show False
      unfolding el by simp
  qed
  moreover have "i \<noteq> 2"
  proof
    assume "i = 2"
    with fs [rule_format, of 1] show False
      unfolding el by simp
  qed
  ultimately have "i = 1"
    by blast
  then have some: "Performance_calculateEmployeeOfTheMonth january_2024 1 2024 example_performances =
     Some (blank_performance\<lparr>employee := 5, overallScore := 90\<rparr>)"
    using r unfolding el by simp
  have ctl: "PerformanceController_calculateEmployeeOfTheMonth january_2024 (Some 1) (Some 2024)
     \<lparr>tasks = example_db, performances = example_performances\<rparr> =
     OK (blank_performance\<lparr>employee := 5, overallScore := 90\<rparr>)"
    using performance_employee_of_the_month [where m = 1 and y = 2024 and mkDate = january_2024
        and st = "\<lparr>tasks = example_db, performances = example_performances\<rparr>"]
    by (simp add: some)
  show ?thesis
    using none some ctl by simp
qed

end
